theory Spec2Isabelle
  imports Main "HOL-Library.AList"
begin

section \<open>Data model of pygamelib.engine\<close>

text \<open>
  The engine mutates Python objects that are shared between the board matrix, the
  overlap matrix, the movable and immovable sets, inventories and the rosters of the
  game. Objects are therefore kept in an explicit store: an object identity is a
  natural number, the store maps identities to the current field values, and every
  container of the engine holds identities.
\<close>

type_synonym oid = nat

datatype inventory_error = not_enough_space | not_pickable | no_item_by_that_name

datatype error =
    PglInvalidTypeException
  | PglOutOfBoardBoundException
  | PglObjectIsNotMovableException
  | PglInvalidLevelException
  | PglInventoryException inventory_error
  | IndexError
  | TypeError
  | KeyError
  | AttributeError
  | NotImplementedError

text \<open>
  A mutator either returns normally with the new state (\<open>Inr\<close>) or raises, leaving the
  state it had reached when the exception left the method (\<open>Inl\<close>).
\<close>

type_synonym 's res = "(error \<times> 's) + 's"

datatype engine_state = RUNNING | PAUSED | STOPPED

datatype direction =
    NO_DIR | UP | DOWN | LEFT | RIGHT | DRUP | DRDOWN | DLUP | DLDOWN
  | Vector2D int int

datatype permission =
    PLAYER_AUTHORIZED | NPC_AUTHORIZED | ALL_CHARACTERS_AUTHORIZED | ALL_MOVABLE_AUTHORIZED

text \<open>
  Modelled from the spec: the class hierarchy of \<^verbatim>\<open>pygamelib.board_items\<close>, which is
  imported by engine.py but is not among the source files. The variants are the ones
  the spec lists; \<^verbatim>\<open>BoardComplexItem\<close> (multi-cell items) is left out, so every item of
  the model is a single-cell item.
\<close>

datatype item_class =
    BoardItemVoid | Wall | Treasure | Door | GenericStructure
  | GenericActionableStructure | NPC | Player | Projectile

fun is_Immovable :: "item_class \<Rightarrow> bool" where
  "is_Immovable Wall = True"
| "is_Immovable Treasure = True"
| "is_Immovable Door = True"
| "is_Immovable GenericStructure = True"
| "is_Immovable GenericActionableStructure = True"
| "is_Immovable _ = False"

fun is_Movable :: "item_class \<Rightarrow> bool" where
  "is_Movable NPC = True"
| "is_Movable Player = True"
| "is_Movable Projectile = True"
| "is_Movable _ = False"

fun is_Actionable :: "item_class \<Rightarrow> bool" where
  "is_Actionable GenericActionableStructure = True"
| "is_Actionable _ = False"

datatype parent_ref = ParentBoard | ParentComplex oid | ParentGame

record sprixel =
  sprixel_model :: string
  is_bg_transparent :: bool
  bg_color :: "string option"

text \<open>
  Modelled from the spec: an actuator of the absent actuators module is consumed through
  its state and \<^verbatim>\<open>next_move()\<close> only. The directions it will answer are given in advance:
  the elements of \<open>moves\<close> in turn, then \<open>repeated\<close> for ever. The default
  \<^verbatim>\<open>RandomActuator(moveset=[RIGHT])\<close> of a projectile, which can only answer RIGHT, has no
  moves and repeats RIGHT.
\<close>

record actuator =
  astate :: engine_state
  moves :: "direction list"
  repeated :: direction

record inventory =
  max_size :: int
  items :: "(string \<times> oid) list"

text \<open>
  The fields of a board item that engine.py reads or writes. The three capability
  methods \<^verbatim>\<open>pickable()\<close>, \<^verbatim>\<open>overlappable()\<close>, \<^verbatim>\<open>restorable()\<close> and \<^verbatim>\<open>can_move()\<close> are
  flags; \<^verbatim>\<open>has_inventory()\<close> is the presence of an inventory; the attributes tested
  with \<^verbatim>\<open>hasattr\<close> (\<^verbatim>\<open>_inventory_space\<close>, \<^verbatim>\<open>value\<close>) are optional. \<open>activated\<close> counts the
  calls of \<^verbatim>\<open>activate()\<close>, whose body is a callback of the host program.
\<close>

record board_item =
  cls :: item_class
  name :: "string option"
  item_type :: string
  model :: string
  pos :: "(int \<times> int) option"
  parent :: "parent_ref option"
  sprixel :: "sprixel option"
  pickable :: bool
  overlappable :: bool
  restorable :: bool
  can_move :: bool
  perm :: permission
  activated :: nat
  inventory :: "inventory option"
  inventory_space :: "int option"
  item_value :: "int option"
  step :: "int option"
  proj_range :: int
  is_aoe :: bool
  aoe_radius :: int
  actuator :: "actuator option"

record heap =
  objs :: "oid \<Rightarrow> board_item"
  next_oid :: oid

definition upd :: "oid \<Rightarrow> (board_item \<Rightarrow> board_item) \<Rightarrow> heap \<Rightarrow> heap" where
  "upd i f h = h\<lparr>objs := (objs h)(i := f (objs h i))\<rparr>"

definition alloc :: "board_item \<Rightarrow> heap \<Rightarrow> oid \<times> heap" where
  "alloc x h = (next_oid h, h\<lparr>objs := (objs h)(next_oid h := x), next_oid := Suc (next_oid h)\<rparr>)"

record board =
  board_name :: string
  board_size :: "int \<times> int"
  player_starting_position :: "int \<times> int"
  ui_border_left :: string
  ui_border_right :: string
  ui_border_top :: string
  ui_border_bottom :: string
  ui_board_void_cell :: string
  ui_board_void_cell_sprixel :: "sprixel option"
  matrix :: "oid list list"
  overlapped_matrix :: "oid option list list"
  movables :: "oid set"
  immovables :: "oid set"

definition width :: "board \<Rightarrow> int" where
  "width b = fst (board_size b)"

definition height :: "board \<Rightarrow> int" where
  "height b = snd (board_size b)"

subsection \<open>Python list indexing\<close>

text \<open>
  \<^verbatim>\<open>xs[i]\<close> accepts \<open>- len xs \<le> i < len xs\<close>, a negative index counting from the end, and
  raises IndexError otherwise.
\<close>

definition py_index :: "'a list \<Rightarrow> int \<Rightarrow> nat option" where
  "py_index xs i =
     (let n = int (length xs) in
      if 0 \<le> i \<and> i < n then Some (nat i)
      else if - n \<le> i \<and> i < 0 then Some (nat (i + n))
      else None)"

definition get2 :: "'a list list \<Rightarrow> int \<Rightarrow> int \<Rightarrow> 'a option" where
  "get2 m row column =
     (case py_index m row of
        None \<Rightarrow> None
      | Some i \<Rightarrow>
          (case py_index (m ! i) column of
             None \<Rightarrow> None
           | Some j \<Rightarrow> Some (m ! i ! j)))"

definition set2 :: "'a list list \<Rightarrow> int \<Rightarrow> int \<Rightarrow> 'a \<Rightarrow> 'a list list option" where
  "set2 m row column v =
     (case py_index m row of
        None \<Rightarrow> None
      | Some i \<Rightarrow>
          (case py_index (m ! i) column of
             None \<Rightarrow> None
           | Some j \<Rightarrow> Some (m[i := (m ! i)[j := v]])))"

section \<open>Board\<close>

text \<open>
  Modelled from the spec: the constructor \<^verbatim>\<open>BoardItemVoid(model=..., parent=self)\<close> of the
  absent board_items module. A Void is overlappable, not pickable and not restorable, and
  has no position until it is placed.
\<close>

definition new_void :: "string \<Rightarrow> sprixel option \<Rightarrow> board_item" where
  "new_void m sp =
     \<lparr> cls = BoardItemVoid, name = Some ''void_cell'', item_type = ''void'', model = m,
       pos = None, parent = Some ParentBoard, sprixel = sp,
       pickable = False, overlappable = True, restorable = False, can_move = False,
       perm = PLAYER_AUTHORIZED, activated = 0, inventory = None, inventory_space = None,
       item_value = None, step = None, proj_range = 0, is_aoe = False, aoe_radius = 0,
       actuator = None \<rparr>"

text \<open>
  Modelled from the spec: the constructors of the other item classes of the absent
  board_items module, with the flags the spec gives each variant (a Wall is not
  overlappable, a Treasure is pickable, a Door is overlappable and restorable, a Player
  carries an inventory of capacity 10). An item is created without position and parent.
\<close>

definition new_item :: "item_class \<Rightarrow> string \<Rightarrow> board_item" where
  "new_item c n =
     \<lparr> cls = c, name = Some n, item_type = ''item'', model = ''*'',
       pos = None, parent = None, sprixel = None,
       pickable = (c = Treasure),
       overlappable = (c = Door \<or> c = BoardItemVoid),
       restorable = (c = Door),
       can_move = is_Movable c,
       perm = PLAYER_AUTHORIZED, activated = 0,
       inventory = (if c = Player then Some \<lparr>max_size = 10, items = []\<rparr> else None),
       inventory_space = (if is_Immovable c then Some 1 else None),
       item_value = (if is_Immovable c \<and> c \<noteq> Wall then Some 0 else None),
       step = (if is_Movable c then Some 1 else None),
       proj_range = (if c = Projectile then 5 else 0),
       is_aoe = False, aoe_radius = 0, actuator = None \<rparr>"

text \<open>
  \<^verbatim>\<open>Board.generate_void_cell()\<close>: a new Void that carries the sprixel of the board and
  the model of that sprixel if the board has one, the void-cell model of the board
  otherwise.
\<close>

definition void_cell :: "board \<Rightarrow> board_item" where
  "void_cell b =
     (case ui_board_void_cell_sprixel b of
        Some s \<Rightarrow> new_void (sprixel_model s) (Some s)
      | None \<Rightarrow> new_void (ui_board_void_cell b) None)"

definition generate_void_cell :: "board \<Rightarrow> heap \<Rightarrow> oid \<times> heap" where
  "generate_void_cell b h = alloc (void_cell b) h"

text \<open>\<^verbatim>\<open>Board.item(row, column)\<close>: only the upper bounds are tested.\<close>

definition item :: "board \<Rightarrow> int \<Rightarrow> int \<Rightarrow> error + oid" where
  "item b row column =
     (if row < height b \<and> column < width b then
        (case get2 (matrix b) row column of
           None \<Rightarrow> Inl IndexError
         | Some x \<Rightarrow> Inr x)
      else Inl PglOutOfBoardBoundException)"

text \<open>
  Modelled from the spec: \<^verbatim>\<open>store_position(row, column)\<close> of the absent board_items
  module sets \<^verbatim>\<open>item.pos\<close>.
\<close>

definition store_position :: "int \<Rightarrow> int \<Rightarrow> board_item \<Rightarrow> board_item" where
  "store_position row column x = x\<lparr>pos := Some (row, column)\<rparr>"

text \<open>
  The incoming item adopts the background colour of the item it covers. An item holds its
  sprixel by value here, where the code writes into a Sprixel object that several items
  may share (every Void made by \<^verbatim>\<open>generate_void_cell\<close> shares the sprixel of the board);
  no statement below concludes on a sprixel.
\<close>

definition adopt_bg :: "oid \<Rightarrow> oid \<Rightarrow> heap \<Rightarrow> heap" where
  "adopt_bg it below h =
     (case (sprixel (objs h it), sprixel (objs h below)) of
        (Some s, Some u) \<Rightarrow>
          if is_bg_transparent s
          then upd it (\<lambda>x. x\<lparr>sprixel := Some (s\<lparr>bg_color := bg_color u\<rparr>)\<rparr>) h
          else h
      | _ \<Rightarrow> h)"

text \<open>The last part of \<^verbatim>\<open>place_item\<close>: ownership, position, and the two sets.\<close>

definition adopt_parent :: "board_item \<Rightarrow> board_item" where
  "adopt_parent x = (if parent x = None then x\<lparr>parent := Some ParentBoard\<rparr> else x)"

definition register_item :: "oid \<Rightarrow> board_item \<Rightarrow> board \<Rightarrow> board" where
  "register_item it x b =
     (if is_Movable (cls x) then
        (case parent x of
           Some (ParentComplex p) \<Rightarrow> b\<lparr>movables := insert p (movables b)\<rparr>
         | _ \<Rightarrow> b\<lparr>movables := insert it (movables b)\<rparr>)
      else if is_Immovable (cls x) then
        (case parent x of
           Some (ParentComplex p) \<Rightarrow> b\<lparr>immovables := insert p (immovables b)\<rparr>
         | _ \<Rightarrow> b\<lparr>immovables := insert it (immovables b)\<rparr>)
      else b)"

text \<open>
  The test of \<^verbatim>\<open>place_item\<close> for saving the present occupant of a cell in the overlap
  matrix.
\<close>

definition keeps :: "heap \<Rightarrow> oid \<Rightarrow> bool" where
  "keeps h e \<longleftrightarrow>
     is_Immovable (cls (objs h e)) \<and> restorable (objs h e) \<and> overlappable (objs h e)"

text \<open>
  \<^verbatim>\<open>Board.place_item(item, row, column)\<close> for a single-cell item: the branch for a
  \<^verbatim>\<open>BoardComplexItem\<close>, which places every part by a call of its own, is outside the
  model, and every object of the store is a BoardItem. The cell is overwritten without
  any test of what it holds, except that an Immovable that is restorable and
  overlappable is first saved in the overlap matrix.
\<close>

definition place_item :: "board \<Rightarrow> heap \<Rightarrow> oid \<Rightarrow> int \<Rightarrow> int \<Rightarrow> (board \<times> heap) res" where
  "place_item b h it row column =
     (if row < height b \<and> column < width b then
        (case get2 (matrix b) row column of
           None \<Rightarrow> Inl (IndexError, (b, h))
         | Some existing_item \<Rightarrow>
             (case (if keeps h existing_item
                    then (case set2 (overlapped_matrix b) row column (Some existing_item) of
                            None \<Rightarrow> None
                          | Some om \<Rightarrow>
                              Some (b\<lparr>overlapped_matrix := om\<rparr>, adopt_bg it existing_item h))
                    else Some (b, h)) of
                None \<Rightarrow> Inl (IndexError, (b, h))
              | Some (b1, h1) \<Rightarrow>
                  (case set2 (matrix b1) row column it of
                     None \<Rightarrow> Inl (IndexError, (b1, h1))
                   | Some m \<Rightarrow>
                       (let h2 = upd it (\<lambda>x. store_position row column (adopt_parent x)) h1
                        in Inr (register_item it (objs h2 it) (b1\<lparr>matrix := m\<rparr>), h2)))))
      else Inl (PglOutOfBoardBoundException, (b, h)))"

text \<open>\<^verbatim>\<open>Board.init_cell\<close> writes a new Void into the matrix without storing a position.\<close>

definition init_cell :: "board \<Rightarrow> heap \<Rightarrow> int \<Rightarrow> int \<Rightarrow> (board \<times> heap) res" where
  "init_cell b h row column =
     (case generate_void_cell b h of
        (v, h1) \<Rightarrow>
          (case set2 (matrix b) row column v of
             None \<Rightarrow> Inl (IndexError, (b, h1))
           | Some m \<Rightarrow> Inr (b\<lparr>matrix := m\<rparr>, h1)))"

text \<open>
  \<^verbatim>\<open>Board.clear_cell(row, column)\<close>: the occupant leaves the set it is in (the movables
  are tested first), and the cell receives the overlapped item if there is one, a new
  Void otherwise.
\<close>

definition unregister :: "oid \<Rightarrow> board \<Rightarrow> board" where
  "unregister x b =
     (if x \<in> movables b then b\<lparr>movables := movables b - {x}\<rparr>
      else if x \<in> immovables b then b\<lparr>immovables := immovables b - {x}\<rparr>
      else b)"

definition clear_cell :: "board \<Rightarrow> heap \<Rightarrow> int \<Rightarrow> int \<Rightarrow> (board \<times> heap) res" where
  "clear_cell b h row column =
     (case get2 (matrix b) row column of
        None \<Rightarrow> Inl (IndexError, (b, h))
      | Some x \<Rightarrow>
          (let b1 = unregister x b
           in case get2 (overlapped_matrix b1) row column of
                None \<Rightarrow> Inl (IndexError, (b1, h))
              | Some (Some o_item) \<Rightarrow>
                  (case (set2 (matrix b1) row column o_item,
                         set2 (overlapped_matrix b1) row column None) of
                     (Some m, Some om) \<Rightarrow>
                       Inr (b1\<lparr>matrix := m, overlapped_matrix := om\<rparr>, h)
                   | _ \<Rightarrow> Inl (IndexError, (b1, h)))
              | Some None \<Rightarrow> init_cell b1 h row column))"

section \<open>Inventory\<close>

text \<open>
  The dictionary \<^verbatim>\<open>__items\<close> maps a name to an item; it is kept as an association
  list in insertion order. \<^verbatim>\<open>size()\<close> and \<^verbatim>\<open>value()\<close> add up the attributes of the items
  that carry them.
\<close>

definition inv_size :: "heap \<Rightarrow> inventory \<Rightarrow> int" where
  "inv_size h iv =
     (\<Sum>(k, i) \<leftarrow> items iv. (case inventory_space (objs h i) of Some s \<Rightarrow> s | None \<Rightarrow> 0))"

definition inv_value :: "heap \<Rightarrow> inventory \<Rightarrow> int" where
  "inv_value h iv =
     (\<Sum>(k, i) \<leftarrow> items iv. (case item_value (objs h i) of Some v \<Rightarrow> v | None \<Rightarrow> 0))"

definition items_name :: "inventory \<Rightarrow> string list" where
  "items_name iv = map fst (items iv)"

text \<open>
  \<^verbatim>\<open>Inventory.add_item(item)\<close>. The argument \<open>uuid\<close> is the text that
  \<^verbatim>\<open>uuid.uuid4().hex\<close> returns in this call. The item is renamed before the test of
  the remaining space, so a refused item may leave with a new name. A name that is
  \<^verbatim>\<open>None\<close> makes the renaming fail with TypeError. Modelled from the spec: for an item
  without the attribute \<^verbatim>\<open>_inventory_space\<close> the message of the exception is built with
  \<^verbatim>\<open>item.inventory_space()\<close>, the virtual method of the absent board_items module,
  which raises NotImplementedError before \<open>not_enough_space\<close> can be raised.
\<close>

definition add_item :: "string \<Rightarrow> inventory \<Rightarrow> heap \<Rightarrow> oid \<Rightarrow> (inventory \<times> heap) res" where
  "add_item uuid iv h it =
     (if pickable (objs h it) then
        (case (case name (objs h it) of
                 None \<Rightarrow> None
               | Some n \<Rightarrow>
                   if n = [] \<or> n \<in> set (items_name iv)
                   then Some (n @ ''_'' @ uuid, upd it (\<lambda>x. x\<lparr>name := Some (n @ ''_'' @ uuid)\<rparr>) h)
                   else Some (n, h)) of
           None \<Rightarrow> Inl (TypeError, (iv, h))
         | Some (n, h1) \<Rightarrow>
             (case inventory_space (objs h1 it) of
                None \<Rightarrow> Inl (NotImplementedError, (iv, h1))
              | Some s \<Rightarrow>
                  if max_size iv \<ge> inv_size h1 iv + s
                  then Inr (iv\<lparr>items := AList.update n it (items iv)\<rparr>, h1)
                  else Inl (PglInventoryException not_enough_space, (iv, h1))))
      else Inl (PglInventoryException not_pickable, (iv, h)))"

definition delete_item :: "inventory \<Rightarrow> heap \<Rightarrow> string \<Rightarrow> (inventory \<times> heap) res" where
  "delete_item iv h n =
     (if n \<in> set (items_name iv)
      then Inr (iv\<lparr>items := AList.delete n (items iv)\<rparr>, h)
      else Inl (PglInventoryException no_item_by_that_name, (iv, h)))"

section \<open>Board.move\<close>

text \<open>The displacement that a direction constant and a step, or a vector, stand for.\<close>

fun offset :: "direction \<Rightarrow> int \<Rightarrow> (int \<times> int) option" where
  "offset NO_DIR s = None"
| "offset UP s = Some (- s, 0)"
| "offset DOWN s = Some (s, 0)"
| "offset LEFT s = Some (0, - s)"
| "offset RIGHT s = Some (0, s)"
| "offset DRUP s = Some (- s, s)"
| "offset DRDOWN s = Some (s, s)"
| "offset DLUP s = Some (- s, - s)"
| "offset DLDOWN s = Some (s, - s)"
| "offset (Vector2D r c) s = Some (r, c)"

definition may_activate :: "board_item \<Rightarrow> board_item \<Rightarrow> bool" where
  "may_activate m d \<longleftrightarrow>
     is_Actionable (cls d) \<and>
     ((cls m = Player \<and> (perm d = PLAYER_AUTHORIZED \<or> perm d = ALL_CHARACTERS_AUTHORIZED))
      \<or> (cls m = NPC \<and> (perm d = NPC_AUTHORIZED \<or> perm d = ALL_CHARACTERS_AUTHORIZED)))"

text \<open>
  Modelled from the spec: \<^verbatim>\<open>activate()\<close> of the absent board_items module runs a callback
  of the host program, which may do anything. The model only counts the call; statements
  that are to hold whatever the callback does assume that no activation takes place
  (\<open>may_activate\<close> is false).
\<close>

definition activate :: "oid \<Rightarrow> heap \<Rightarrow> heap" where
  "activate d h = upd d (\<lambda>x. x\<lparr>activated := Suc (activated x)\<rparr>) h"

text \<open>
  The pickup of \<^verbatim>\<open>_move_simple\<close>: the destination item goes into the inventory of the
  mover, then the destination cell is cleared.
\<close>

definition pickup :: "string \<Rightarrow> board \<Rightarrow> heap \<Rightarrow> oid \<Rightarrow> int \<Rightarrow> int \<Rightarrow> (board \<times> heap) res" where
  "pickup uuid b h it new_row new_column =
     (case get2 (matrix b) new_row new_column of
        None \<Rightarrow> Inl (IndexError, (b, h))
      | Some d \<Rightarrow>
          (case inventory (objs h it) of
             Some iv \<Rightarrow>
               if \<not> overlappable (objs h d) \<and> pickable (objs h d) \<and> is_Movable (cls (objs h it))
               then (case add_item uuid iv h d of
                       Inl (e, (iv1, h1)) \<Rightarrow> Inl (e, (b, h1))
                     | Inr (iv1, h1) \<Rightarrow>
                         clear_cell b (upd it (\<lambda>x. x\<lparr>inventory := Some iv1\<rparr>) h1)
                           new_row new_column)
               else Inr (b, h)
           | None \<Rightarrow> Inr (b, h)))"

text \<open>
  The departure cell: an overlapped Immovable that is restorable and whose stored
  position is not the destination is put back at its stored position and the overlap
  slot is emptied; otherwise a new Void is placed. \<open>to_restore\<close> is the test.
\<close>

definition to_restore :: "heap \<Rightarrow> oid option \<Rightarrow> int \<Rightarrow> int \<Rightarrow> oid option" where
  "to_restore h overlapped_item new_row new_column =
     (case overlapped_item of
        None \<Rightarrow> None
      | Some ov \<Rightarrow>
          if is_Immovable (cls (objs h ov)) \<and> restorable (objs h ov)
             \<and> pos (objs h ov) \<noteq> Some (new_row, new_column)
          then Some ov else None)"

definition leave_source :: "board \<Rightarrow> heap \<Rightarrow> oid \<Rightarrow> int \<Rightarrow> int \<Rightarrow> (board \<times> heap) res" where
  "leave_source b h it new_row new_column =
     (case pos (objs h it) of
        None \<Rightarrow> Inl (TypeError, (b, h))
      | Some (r, c) \<Rightarrow>
          (case get2 (overlapped_matrix b) r c of
             None \<Rightarrow> Inl (IndexError, (b, h))
           | Some overlapped_item \<Rightarrow>
               (case to_restore h overlapped_item new_row new_column of
                  Some ov \<Rightarrow>
                    (case pos (objs h ov) of
                       None \<Rightarrow> Inl (TypeError, (b, h))
                     | Some (orow, ocol) \<Rightarrow>
                         (case place_item b h ov orow ocol of
                            Inl e \<Rightarrow> Inl e
                          | Inr (b1, h1) \<Rightarrow>
                              (case pos (objs h1 it) of
                                 None \<Rightarrow> Inl (TypeError, (b1, h1))
                               | Some (r1, c1) \<Rightarrow>
                                   (case set2 (overlapped_matrix b1) r1 c1 None of
                                      None \<Rightarrow> Inl (IndexError, (b1, h1))
                                    | Some om \<Rightarrow> Inr (b1\<lparr>overlapped_matrix := om\<rparr>, h1)))))
                | None \<Rightarrow>
                    (case generate_void_cell b h of
                       (v, h1) \<Rightarrow> place_item b h1 v r c))))"

text \<open>
  The test of \<^verbatim>\<open>_move_simple\<close> for parking the destination item in the overlap
  matrix.
\<close>

definition parks :: "heap \<Rightarrow> oid \<Rightarrow> bool" where
  "parks h d \<longleftrightarrow>
     cls (objs h d) \<noteq> BoardItemVoid \<and> is_Immovable (cls (objs h d)) \<and> restorable (objs h d)"

text \<open>
  The last part of \<^verbatim>\<open>_move_simple\<close>, after activation and pickup: if the item now at the
  destination is overlappable, it is parked when restorable, the mover adopts its
  background, leaves its cell and is placed; otherwise nothing happens.
\<close>

definition settle :: "board \<Rightarrow> heap \<Rightarrow> oid \<Rightarrow> int \<Rightarrow> int \<Rightarrow> (board \<times> heap) res" where
  "settle b h it new_row new_column =
     (case get2 (matrix b) new_row new_column of
        None \<Rightarrow> Inl (IndexError, (b, h))
      | Some d \<Rightarrow>
          if overlappable (objs h d) then
            (case (if parks h d
                   then set2 (overlapped_matrix b) new_row new_column (Some d)
                   else Some (overlapped_matrix b)) of
               None \<Rightarrow> Inl (IndexError, (b, h))
             | Some om \<Rightarrow>
                 (case leave_source (b\<lparr>overlapped_matrix := om\<rparr>)
                         (adopt_bg it d h) it new_row new_column of
                    Inl e \<Rightarrow> Inl e
                  | Inr (b3, h3) \<Rightarrow> place_item b3 h3 it new_row new_column))
          else Inr (b, h))"

text \<open>
  \<^verbatim>\<open>Board._move_simple(item, direction, step)\<close>. A vector direction has integer
  components here (\<^verbatim>\<open>Board.move\<close> rounds them before the call).
\<close>

definition move_simple ::
  "string \<Rightarrow> board \<Rightarrow> heap \<Rightarrow> oid \<Rightarrow> direction \<Rightarrow> int \<Rightarrow> (board \<times> heap) res" where
  "move_simple uuid b h it direction stp =
     (if is_Movable (cls (objs h it)) \<and> can_move (objs h it) then
        (case offset direction stp of
           None \<Rightarrow> Inr (b, h)
         | Some (dr, dc) \<Rightarrow>
             (case pos (objs h it) of
                None \<Rightarrow> Inl (TypeError, (b, h))
              | Some (r, c) \<Rightarrow>
                  (let new_row = r + dr; new_column = c + dc in
                   if new_row \<ge> 0 \<and> new_column \<ge> 0
                      \<and> new_row < height b \<and> new_column < width b then
                     (case get2 (matrix b) new_row new_column of
                        None \<Rightarrow> Inl (IndexError, (b, h))
                      | Some d \<Rightarrow>
                          (let h1 = (if may_activate (objs h it) (objs h d)
                                     then activate d h else h)
                           in case pickup uuid b h1 it new_row new_column of
                                Inl e \<Rightarrow> Inl e
                              | Inr (b2, h2) \<Rightarrow> settle b2 h2 it new_row new_column))
                   else Inr (b, h))))
      else Inl (PglObjectIsNotMovableException, (b, h)))"

text \<open>
  \<^verbatim>\<open>Board.move\<close> routes a single-cell item to \<^verbatim>\<open>_move_simple\<close>; the model has no
  complex items.
\<close>

definition move ::
  "string \<Rightarrow> board \<Rightarrow> heap \<Rightarrow> oid \<Rightarrow> direction \<Rightarrow> int \<Rightarrow> (board \<times> heap) res" where
  "move uuid b h it direction stp = move_simple uuid b h it direction stp"

section \<open>Well-formed boards and small concrete states\<close>

text \<open>
  After \<^verbatim>\<open>init_board\<close> both matrices have \<open>height\<close> rows of \<open>width\<close> cells. The methods
  never change the shape, but \<^verbatim>\<open>size\<close> is a public attribute, so the shape is a
  hypothesis wherever a cell must exist.
\<close>

definition rect :: "'a list list \<Rightarrow> int \<Rightarrow> int \<Rightarrow> bool" where
  "rect m h w \<longleftrightarrow> length m = nat h \<and> list_all (\<lambda>row. length row = nat w) m"

definition wf_board :: "board \<Rightarrow> bool" where
  "wf_board b \<longleftrightarrow>
     rect (matrix b) (height b) (width b) \<and> rect (overlapped_matrix b) (height b) (width b)"

text \<open>The cell and the update that an index pair within the bounds denotes.\<close>

definition cell :: "'a list list \<Rightarrow> int \<Rightarrow> int \<Rightarrow> 'a" where
  "cell m r c = m ! nat r ! nat c"

definition put :: "'a list list \<Rightarrow> int \<Rightarrow> int \<Rightarrow> 'a \<Rightarrow> 'a list list" where
  "put m r c v = m[nat r := (m ! nat r)[nat c := v]]"

definition inside :: "board \<Rightarrow> int \<Rightarrow> int \<Rightarrow> bool" where
  "inside b r c \<longleftrightarrow> 0 \<le> r \<and> r < height b \<and> 0 \<le> c \<and> c < width b"

text \<open>A board with the default name, borders and void cell, given by its two matrices.\<close>

definition board_of :: "int \<times> int \<Rightarrow> oid list list \<Rightarrow> oid option list list \<Rightarrow> board" where
  "board_of sz m om =
     \<lparr> board_name = ''Board'', board_size = sz, player_starting_position = (0, 0),
       ui_border_left = ''|'', ui_border_right = ''|'', ui_border_top = ''-'',
       ui_border_bottom = ''-'', ui_board_void_cell = '' '',
       ui_board_void_cell_sprixel = None,
       matrix = m, overlapped_matrix = om, movables = {}, immovables = {} \<rparr>"

text \<open>What \<^verbatim>\<open>place_item\<close> returns when the cell exists.\<close>

definition placed :: "board \<Rightarrow> heap \<Rightarrow> oid \<Rightarrow> int \<Rightarrow> int \<Rightarrow> board \<times> heap" where
  "placed b h it r c =
     (let e = cell (matrix b) r c;
          om = (if keeps h e then put (overlapped_matrix b) r c (Some e)
                else overlapped_matrix b);
          h1 = (if keeps h e then adopt_bg it e h else h);
          h2 = upd it (\<lambda>x. store_position r c (adopt_parent x)) h1
      in (register_item it (objs h2 it)
            (b\<lparr>overlapped_matrix := om, matrix := put (matrix b) r c it\<rparr>), h2))"

text \<open>
  The fields of an item that no method of the board writes: all but position, parent,
  sprixel, name, inventory and the activation count.
\<close>

definition core :: "board_item \<Rightarrow> board_item" where
  "core x = x\<lparr>pos := None, parent := None, sprixel := None, name := None,
              inventory := None, activated := 0\<rparr>"

text \<open>
  The 5 by 5 board of the spec's scenarios. Cell \<open>(r, c)\<close> holds object \<open>5 r + c\<close>; an
  object is the Void that \<^verbatim>\<open>init_board\<close> made unless the store says otherwise.
\<close>

definition heap_with :: "(oid \<times> board_item) list \<Rightarrow> oid \<Rightarrow> heap" where
  "heap_with xs n =
     \<lparr> objs = (\<lambda>i. case map_of xs i of Some x \<Rightarrow> x | None \<Rightarrow> new_void '' '' None),
       next_oid = n \<rparr>"

definition grid5 :: "oid list list" where
  "grid5 = [[0, 1, 2, 3, 4], [5, 6, 7, 8, 9], [10, 11, 12, 13, 14],
            [15, 16, 17, 18, 19], [20, 21, 22, 23, 24]]"

definition no_overlap5 :: "oid option list list" where
  "no_overlap5 = [[None, None, None, None, None], [None, None, None, None, None],
                  [None, None, None, None, None], [None, None, None, None, None],
                  [None, None, None, None, None]]"

definition board5 :: "oid set \<Rightarrow> oid set \<Rightarrow> board" where
  "board5 mv im = (board_of (5, 5) grid5 no_overlap5)\<lparr>movables := mv, immovables := im\<rparr>"

definition player_at :: "int \<times> int \<Rightarrow> int \<Rightarrow> board_item" where
  "player_at p cap =
     (new_item Player ''player'')\<lparr>pos := Some p, parent := Some ParentBoard,
        inventory := Some \<lparr>max_size = cap, items = []\<rparr>\<rparr>"

definition treasure_at :: "int \<times> int \<Rightarrow> int \<Rightarrow> int \<Rightarrow> board_item" where
  "treasure_at p v space =
     (new_item Treasure ''treasure'')\<lparr>pos := Some p, parent := Some ParentBoard,
        item_value := Some v, inventory_space := Some space\<rparr>"

definition wall_at :: "int \<times> int \<Rightarrow> board_item" where
  "wall_at p = (new_item Wall ''wall'')\<lparr>pos := Some p, parent := Some ParentBoard\<rparr>"

definition door_at :: "int \<times> int \<Rightarrow> board_item" where
  "door_at p = (new_item Door ''door'')\<lparr>pos := Some p, parent := Some ParentBoard\<rparr>"

text \<open>
  Player at (0,0) with a Wall at (0,1); a Wall that is not yet on the board; and the Player
  with a Treasure too big for its inventory.
\<close>

definition wall_heap :: heap where
  "wall_heap = heap_with [(0, player_at (0, 0) 10), (1, wall_at (0, 1))] 25"

definition spare_heap :: heap where
  "spare_heap = heap_with [(25, new_item Wall ''wall'')] 26"

definition full_heap :: heap where
  "full_heap = heap_with [(0, player_at (0, 0) 1), (1, treasure_at (0, 1) 50 2)] 25"

text \<open>
  A run of \<^verbatim>\<open>add_item\<close> and \<^verbatim>\<open>delete_item\<close> calls on one inventory. The caller catches
  an exception and goes on with the state the failed call left.
\<close>

datatype inventory_call = Add string oid | Delete string

fun after_call :: "(inventory \<times> heap) res \<Rightarrow> inventory \<times> heap" where
  "after_call (Inl (e, s)) = s"
| "after_call (Inr s) = s"

fun run_call :: "inventory_call \<Rightarrow> inventory \<times> heap \<Rightarrow> inventory \<times> heap" where
  "run_call (Add uuid it) (iv, h) = after_call (add_item uuid iv h it)"
| "run_call (Delete n) (iv, h) = after_call (delete_item iv h n)"

fun run_calls :: "inventory_call list \<Rightarrow> inventory \<times> heap \<Rightarrow> inventory \<times> heap" where
  "run_calls [] s = s"
| "run_calls (x # xs) s = run_calls xs (run_call x s)"

text \<open>Items of the scenarios of the inventory: name and needed space.\<close>

definition thing :: "string \<Rightarrow> int \<Rightarrow> board_item" where
  "thing n space = (new_item Treasure n)\<lparr>inventory_space := Some space\<rparr>"

definition space_of :: "heap \<Rightarrow> string \<times> oid \<Rightarrow> int" where
  "space_of h = (\<lambda>(k, i). case inventory_space (objs h i) of Some s \<Rightarrow> s | None \<Rightarrow> 0)"

text \<open>No item of the store declares a negative \<^verbatim>\<open>inventory_space\<close>.\<close>

definition spaces_nonneg :: "heap \<Rightarrow> bool" where
  "spaces_nonneg h \<longleftrightarrow> (\<forall>i s. inventory_space (objs h i) = Some s \<longrightarrow> 0 \<le> s)"

text \<open>
  The items of the spec's scenario 6 (A and B, each of space 2), and three items of which
  the second declares the space \<open>- 2\<close>.
\<close>

definition two_things :: heap where
  "two_things = heap_with [(0, thing ''A'' 2), (1, thing ''B'' 2)] 2"

definition three_things :: heap where
  "three_things = heap_with [(0, thing ''A'' 3), (1, thing ''B'' (- 2)), (2, thing ''C'' 2)] 3"

text \<open>
  The state in which a mover that found an overlappable item \<open>d\<close> at its destination is
  about to leave its cell: \<open>d\<close> was activated if permitted and parked if restorable, and
  the mover adopted its background. \<open>with_void\<close> is the store after
  \<^verbatim>\<open>generate_void_cell\<close>.
\<close>

definition arrive :: "board \<Rightarrow> heap \<Rightarrow> oid \<Rightarrow> int \<Rightarrow> int \<Rightarrow> board \<times> heap" where
  "arrive b h it nr nc =
     (let d = cell (matrix b) nr nc;
          h1 = (if may_activate (objs h it) (objs h d) then activate d h else h)
      in (b\<lparr>overlapped_matrix :=
              (if parks h1 d then put (overlapped_matrix b) nr nc (Some d)
               else overlapped_matrix b)\<rparr>,
          adopt_bg it d h1))"

definition with_void :: "board \<Rightarrow> heap \<Rightarrow> heap" where
  "with_void b h = snd (generate_void_cell b h)"

text \<open>
  The same state without the activation, as \<open>settle\<close> builds it, and what
  \<^verbatim>\<open>clear_cell\<close> returns when the cell exists.
\<close>

definition land :: "board \<Rightarrow> heap \<Rightarrow> oid \<Rightarrow> int \<Rightarrow> int \<Rightarrow> board \<times> heap" where
  "land b h it nr nc =
     (let d = cell (matrix b) nr nc
      in (b\<lparr>overlapped_matrix :=
              (if parks h d then put (overlapped_matrix b) nr nc (Some d)
               else overlapped_matrix b)\<rparr>,
          adopt_bg it d h))"

definition cleared :: "board \<Rightarrow> heap \<Rightarrow> int \<Rightarrow> int \<Rightarrow> board \<times> heap" where
  "cleared b h r c =
     (let b1 = unregister (cell (matrix b) r c) b
      in case cell (overlapped_matrix b) r c of
           Some o_item \<Rightarrow>
             (b1\<lparr>matrix := put (matrix b) r c o_item,
                 overlapped_matrix := put (overlapped_matrix b) r c None\<rparr>, h)
         | None \<Rightarrow> (b1\<lparr>matrix := put (matrix b) r c (next_oid h)\<rparr>, with_void b h))"

text \<open>
  Both doors scenario: on the 5 by 5 board the Player stands at (2,2) over a Door that
  is parked in the overlap matrix, and a second Door is at (2,3).
\<close>

definition doors_heap :: heap where
  "doors_heap = heap_with [(12, player_at (2, 2) 10), (13, door_at (2, 3)),
                           (25, door_at (2, 2))] 26"

definition doors_board :: board where
  "doors_board =
     (board5 {12} {13, 25})\<lparr>overlapped_matrix :=
        [[None, None, None, None, None], [None, None, None, None, None],
         [None, None, Some 25, None, None], [None, None, None, None, None],
         [None, None, None, None, None]]\<rparr>"

text \<open>The spec's scenario 1: a Door at (2,2) and the Player at (2,1).\<close>

definition door_heap :: heap where
  "door_heap = heap_with [(11, player_at (2, 1) 10), (12, door_at (2, 2))] 25"

text \<open>
  The key under which \<^verbatim>\<open>add_item\<close> files an item named \<open>n\<close>, and the store after a
  successful pickup of \<open>d\<close> by \<open>it\<close>: \<open>d\<close> renamed if need be, and the inventory of \<open>it\<close>
  holding \<open>d\<close>.
\<close>

definition key_for :: "string \<Rightarrow> inventory \<Rightarrow> string \<Rightarrow> string" where
  "key_for uuid iv n = (if n = [] \<or> n \<in> set (items_name iv) then n @ ''_'' @ uuid else n)"

definition with_item :: "string \<Rightarrow> inventory \<Rightarrow> string \<Rightarrow> oid \<Rightarrow> inventory" where
  "with_item uuid iv n d = iv\<lparr>items := AList.update (key_for uuid iv n) d (items iv)\<rparr>"

definition picked :: "string \<Rightarrow> heap \<Rightarrow> oid \<Rightarrow> oid \<Rightarrow> inventory \<Rightarrow> string \<Rightarrow> heap" where
  "picked uuid h it d iv n =
     upd it (\<lambda>x. x\<lparr>inventory := Some (with_item uuid iv n d)\<rparr>)
       (if n = [] \<or> n \<in> set (items_name iv)
        then upd d (\<lambda>x. x\<lparr>name := Some (n @ ''_'' @ uuid)\<rparr>) h else h)"

definition value_of :: "heap \<Rightarrow> string \<times> oid \<Rightarrow> int" where
  "value_of h = (\<lambda>(k, i). case item_value (objs h i) of Some v \<Rightarrow> v | None \<Rightarrow> 0)"

text \<open>The spec's scenario 3: a Treasure of value 50 and space 2 at (0,1).\<close>

definition treasure_heap :: heap where
  "treasure_heap = heap_with [(0, player_at (0, 0) 10), (1, treasure_at (0, 1) 50 2)] 25"

section \<open>The movables and the immovables of a board\<close>

text \<open>
  The items that the matrix holds and the items that the overlap matrix holds. An item is
  \<open>single\<close> when it is not a part of a complex item (\<^verbatim>\<open>place_item\<close> puts the parent of
  a part in the set, not the part).
\<close>

definition stored :: "board \<Rightarrow> oid set" where
  "stored b = set (concat (matrix b))"

definition parked :: "board \<Rightarrow> oid set" where
  "parked b = Option.these (set (concat (overlapped_matrix b)))"

definition single :: "heap \<Rightarrow> oid \<Rightarrow> bool" where
  "single h i \<longleftrightarrow> (case parent (objs h i) of Some (ParentComplex p) \<Rightarrow> False | _ \<Rightarrow> True)"

text \<open>
  The invariant as the spec words it: the movables are exactly the Movables that the
  matrix holds, and the immovables exactly the Immovables that the matrix holds.
\<close>

definition sets_exact :: "board \<Rightarrow> heap \<Rightarrow> bool" where
  "sets_exact b h \<longleftrightarrow>
     movables b = {i \<in> stored b. is_Movable (cls (objs h i))}
     \<and> immovables b = {i \<in> stored b. is_Immovable (cls (objs h i))}"

text \<open>
  The half of it that the mutators keep: a Movable that the matrix holds is a member of
  the movables, an Immovable that the matrix holds is a member of the immovables.
\<close>

definition in_its_set :: "board \<Rightarrow> heap \<Rightarrow> oid \<Rightarrow> bool" where
  "in_its_set b h i \<longleftrightarrow>
     (is_Movable (cls (objs h i)) \<longrightarrow> i \<in> movables b)
     \<and> (is_Immovable (cls (objs h i)) \<longrightarrow> i \<in> immovables b)"

definition registered :: "board \<Rightarrow> heap \<Rightarrow> bool" where
  "registered b h \<longleftrightarrow> (\<forall>i \<in> stored b. in_its_set b h i)"

text \<open>
  The store fits the board: the two matrices hold objects that exist, and no object is a
  part of a complex item.
\<close>

definition sane :: "board \<Rightarrow> heap \<Rightarrow> bool" where
  "sane b h \<longleftrightarrow>
     (\<forall>i \<in> stored b \<union> parked b. i < next_oid h) \<and> (\<forall>i < next_oid h. single h i)"

text \<open>
  \<^verbatim>\<open>clear_cell\<close> takes the occupant of the cell out of its set and puts the overlapped
  item back without adding it to a set: the occupant must be in no other cell, and the
  overlapped item must be another item that is in its set.
\<close>

definition clear_ok :: "board \<Rightarrow> heap \<Rightarrow> int \<Rightarrow> int \<Rightarrow> bool" where
  "clear_ok b h r c \<longleftrightarrow>
     (case get2 (matrix b) r c of
        None \<Rightarrow> True
      | Some x \<Rightarrow>
          count_list (concat (matrix b)) x \<le> 1
          \<and> (case get2 (overlapped_matrix b) r c of
                Some (Some o_item) \<Rightarrow> o_item \<noteq> x \<and> in_its_set b h o_item
              | _ \<Rightarrow> True))"

text \<open>A call of one of the three public mutators, and what the call needs.\<close>

datatype board_call = Place_item oid int int | Clear_cell int int | Move string oid direction int

fun run_board_call :: "board_call \<Rightarrow> board \<Rightarrow> heap \<Rightarrow> (board \<times> heap) res" where
  "run_board_call (Place_item it r c) b h = place_item b h it r c"
| "run_board_call (Clear_cell r c) b h = clear_cell b h r c"
| "run_board_call (Move uuid it d s) b h = move uuid b h it d s"

fun call_ok :: "board_call \<Rightarrow> board \<Rightarrow> heap \<Rightarrow> bool" where
  "call_ok (Place_item it r c) b h \<longleftrightarrow> it < next_oid h"
| "call_ok (Clear_cell r c) b h \<longleftrightarrow> clear_ok b h r c"
| "call_ok (Move uuid it d s) b h \<longleftrightarrow>
     it < next_oid h
     \<and> (case (pos (objs h it), offset d s) of
           (Some (r, c), Some (dr, dc)) \<Rightarrow>
             (case get2 (matrix b) (r + dr) (c + dc) of
                Some x \<Rightarrow>
                  \<not> overlappable (objs h x) \<and> pickable (objs h x) \<and> inventory (objs h it) \<noteq> None
                  \<longrightarrow> clear_ok b h (r + dr) (c + dc)
              | None \<Rightarrow> True)
         | _ \<Rightarrow> True)"

text \<open>Two Walls that are not yet on the 5 by 5 board.\<close>

definition two_walls :: heap where
  "two_walls = heap_with [(25, new_item Wall ''wall''), (26, new_item Wall ''wall'')] 27"

section \<open>Game\<close>

text \<open>
  The part of \<^verbatim>\<open>Game\<close> that the projectile methods and \<^verbatim>\<open>neighbors\<close> use: the dictionary
  \<^verbatim>\<open>_boards\<close> from level numbers to a board with its rosters, the current level, the
  player and the state of the engine. Modelled from the spec: \<^verbatim>\<open>Projectile.hit(objects)\<close>
  of the absent board_items module hands the list to the callback of the host program;
  \<open>hit_log\<close> records every call, the projectile and the list it received, in order.
\<close>

record level =
  lboard :: board
  npcs :: "oid list"
  projectiles :: "oid list"

record game =
  boards :: "int \<rightharpoonup> level"
  current_level :: "int option"
  player :: "oid option"
  state :: engine_state
  store :: heap
  hit_log :: "(oid \<times> oid list) list"

definition current_board :: "game \<Rightarrow> error + board" where
  "current_board g =
     (case current_level g of
        None \<Rightarrow> Inl PglInvalidLevelException
      | Some n \<Rightarrow>
          (case boards g n of
             None \<Rightarrow> Inl PglInvalidLevelException
           | Some l \<Rightarrow> Inr (lboard l)))"

text \<open>
  \<^verbatim>\<open>Game.neighbors(radius, object)\<close>. The two nested loops run over
  \<^verbatim>\<open>range(-radius, radius + 1, 1)\<close>; the centre is skipped; a cell is looked up on the
  current board when its row and column are below the upper bounds, no lower bound being
  tested, and it is appended unless it is a Void.
\<close>

definition offsets :: "int \<Rightarrow> (int \<times> int) list" where
  "offsets radius = concat (map (\<lambda>x. map (\<lambda>y. (x, y)) [- radius..radius]) [- radius..radius])"

fun neighbors_loop :: "game \<Rightarrow> oid \<Rightarrow> (int \<times> int) list \<Rightarrow> error + oid list" where
  "neighbors_loop g obj [] = Inr []"
| "neighbors_loop g obj ((x, y) # rest) =
     (if x = 0 \<and> y = 0 then neighbors_loop g obj rest
      else
        (case pos (objs (store g) obj) of
           None \<Rightarrow> Inl TypeError
         | Some (r, c) \<Rightarrow>
             (case current_board g of
                Inl e \<Rightarrow> Inl e
              | Inr b \<Rightarrow>
                  if r + x < height b \<and> c + y < width b then
                    (case item b (r + x) (c + y) of
                       Inl e \<Rightarrow> Inl e
                     | Inr i \<Rightarrow>
                         if cls (objs (store g) i) \<noteq> BoardItemVoid
                         then (case neighbors_loop g obj rest of
                                 Inl e \<Rightarrow> Inl e
                               | Inr found \<Rightarrow> Inr (i # found))
                         else neighbors_loop g obj rest)
                  else neighbors_loop g obj rest)))"

definition neighbors :: "game \<Rightarrow> int \<Rightarrow> oid \<Rightarrow> error + oid list" where
  "neighbors g radius obj = neighbors_loop g obj (offsets radius)"

text \<open>
  A game whose level 1, the current one, is the 5 by 5 board with the Player at (0,0)
  and a Wall at (4,4).
\<close>

definition corner_heap :: heap where
  "corner_heap = heap_with [(0, player_at (0, 0) 10), (24, wall_at (4, 4))] 25"

definition corner_game :: game where
  "corner_game =
     \<lparr> boards = [1 \<mapsto> \<lparr>lboard = board5 {0} {24}, npcs = [], projectiles = []\<rparr>],
       current_level = Some 1, player = Some 0, state = RUNNING, store = corner_heap,
       hit_log = [] \<rparr>"

text \<open>
  \<^verbatim>\<open>Game.add_projectile(level_number, projectile, row, column)\<close> with integer arguments.
  Outside the board nothing happens. A target cell that holds anything but a Void is an
  immediate hit, with the neighbours of the item found there if the projectile has an
  area of effect, with that item alone otherwise; the projectile is neither placed nor
  added to the roster. Otherwise the projectile receives its default actuator and step,
  is placed and is appended to the roster of the level.
\<close>

definition hit :: "oid \<Rightarrow> oid list \<Rightarrow> game \<Rightarrow> game" where
  "hit p objects g = g\<lparr>hit_log := hit_log g @ [(p, objects)]\<rparr>"

definition add_projectile :: "game \<Rightarrow> int \<Rightarrow> oid \<Rightarrow> int \<Rightarrow> int \<Rightarrow> game res" where
  "add_projectile g level_number projectile row column =
     (if cls (objs (store g) projectile) = Projectile then
        (case boards g level_number of
           None \<Rightarrow> Inl (KeyError, g)
         | Some l \<Rightarrow>
             (let b = lboard l in
              if row \<ge> height b \<or> column \<ge> width b \<or> row < 0 \<or> column < 0 then Inr g
              else
                (case item b row column of
                   Inl e \<Rightarrow> Inl (e, g)
                 | Inr check_object \<Rightarrow>
                     if cls (objs (store g) check_object) \<noteq> BoardItemVoid then
                       (if is_aoe (objs (store g) projectile) then
                          (case neighbors g (aoe_radius (objs (store g) projectile))
                                  check_object of
                             Inl e \<Rightarrow> Inl (e, g)
                           | Inr found \<Rightarrow> Inr (hit projectile found g))
                        else Inr (hit projectile [check_object] g))
                     else
                       (let h1 = upd projectile
                                   (\<lambda>x. x\<lparr>actuator :=
                                             (case actuator x of
                                                None \<Rightarrow>
                                                  Some \<lparr>astate = RUNNING, moves = [], repeated = RIGHT\<rparr>
                                              | Some a \<Rightarrow> Some a),
                                           step := (case step x of None \<Rightarrow> Some 1
                                                    | Some s \<Rightarrow> Some s)\<rparr>)
                                   (store g)
                        in case place_item b h1 projectile row column of
                             Inl (e, (b1, h2)) \<Rightarrow>
                               Inl (e, g\<lparr>boards := (boards g)(level_number \<mapsto> l\<lparr>lboard := b1\<rparr>),
                                        store := h2\<rparr>)
                           | Inr (b1, h2) \<Rightarrow>
                               Inr (g\<lparr>boards :=
                                        (boards g)(level_number \<mapsto>
                                           l\<lparr>lboard := b1,
                                             projectiles := projectiles l @ [projectile]\<rparr>),
                                      store := h2\<rparr>)))))
      else Inl (PglInvalidTypeException, g))"

text \<open>
  The spec's scenario 4: a 10 by 10 board, whose cell \<open>(r, c)\<close> holds object
  \<open>10 r + c\<close>, with Walls at (3,3), (3,4) and (4,3), and a projectile with an area of
  effect of radius 1 that is not yet on the board.
\<close>

definition grid :: "nat \<Rightarrow> nat \<Rightarrow> oid list list" where
  "grid w h = map (\<lambda>r. map (\<lambda>c. r * w + c) [0..<w]) [0..<h]"

definition board10 :: board where
  "board10 = (board_of (10, 10) (grid 10 10) (replicate 10 (replicate 10 None)))
               \<lparr>immovables := {33, 34, 43}\<rparr>"

definition aoe_heap :: heap where
  "aoe_heap =
     heap_with [(33, wall_at (3, 3)), (34, wall_at (3, 4)), (43, wall_at (4, 3)),
                (100, (new_item Projectile ''fireball'')\<lparr>is_aoe := True, aoe_radius := 1\<rparr>)]
       101"

definition aoe_game :: game where
  "aoe_game =
     \<lparr> boards = [1 \<mapsto> \<lparr>lboard = board10, npcs = [], projectiles = []\<rparr>],
       current_level = Some 1, player = None, state = RUNNING, store = aoe_heap,
       hit_log = [] \<rparr>"

text \<open>
  \<^verbatim>\<open>Game.actuate_projectiles(level_number)\<close>. The pieces first: the next direction of an
  actuator; the cell beyond the projectile, which only the eight direction constants
  give; the two ways of reporting a hit; and the removal of a projectile from the roster
  and the board. Modelled from the spec: \<^verbatim>\<open>BoardItemVoid()\<close> without arguments, the
  placeholder of a directional hit, is a new Void without parent; and
  \<^verbatim>\<open>store_position\<close> assigns a new list to \<^verbatim>\<open>pos\<close>, so that \<^verbatim>\<open>init_position\<close> keeps the
  coordinates the projectile had before the move.
\<close>

definition next_move :: "actuator \<Rightarrow> direction \<times> actuator" where
  "next_move a = (case moves a of [] \<Rightarrow> (repeated a, a) | d # ds \<Rightarrow> (d, a\<lparr>moves := ds\<rparr>))"

fun beyond :: "direction \<Rightarrow> int \<times> int \<Rightarrow> int \<Rightarrow> (int \<times> int) option" where
  "beyond UP (r, c) s = Some (r - s, c)"
| "beyond DOWN (r, c) s = Some (r + s, c)"
| "beyond LEFT (r, c) s = Some (r, c - s)"
| "beyond RIGHT (r, c) s = Some (r, c + s)"
| "beyond DRUP (r, c) s = Some (r - s, c + s)"
| "beyond DRDOWN (r, c) s = Some (r + s, c + s)"
| "beyond DLUP (r, c) s = Some (r - s, c - s)"
| "beyond DLDOWN (r, c) s = Some (r + s, c - s)"
| "beyond NO_DIR (r, c) s = None"
| "beyond (Vector2D x y) (r, c) s = None"

definition placeholder_void :: board_item where
  "placeholder_void = new_item BoardItemVoid ''void_cell''"

definition with_board :: "int \<Rightarrow> board \<Rightarrow> heap \<Rightarrow> game \<Rightarrow> game" where
  "with_board n b h g =
     g\<lparr>boards := (case boards g n of
                    None \<Rightarrow> boards g
                  | Some l \<Rightarrow> (boards g)(n \<mapsto> l\<lparr>lboard := b\<rparr>)),
       store := h\<rparr>"

definition aoe_hit :: "oid \<Rightarrow> game \<Rightarrow> game res" where
  "aoe_hit p g =
     (case neighbors g (aoe_radius (objs (store g) p)) p of
        Inl e \<Rightarrow> Inl (e, g)
      | Inr found \<Rightarrow> Inr (hit p found g))"

definition void_hit :: "oid \<Rightarrow> game \<Rightarrow> game" where
  "void_hit p g = (case alloc placeholder_void (store g) of (v, h1) \<Rightarrow> hit p [v] (g\<lparr>store := h1\<rparr>))"

definition leave_roster :: "int \<Rightarrow> oid \<Rightarrow> game \<Rightarrow> game res" where
  "leave_roster n p g =
     (case boards g n of
        None \<Rightarrow> Inl (KeyError, g)
      | Some l \<Rightarrow>
          (let g1 = g\<lparr>boards := (boards g)(n \<mapsto> l\<lparr>projectiles := remove1 p (projectiles l)\<rparr>)\<rparr>
           in case pos (objs (store g) p) of
                None \<Rightarrow> Inl (TypeError, g1)
              | Some (r, c) \<Rightarrow>
                  (case clear_cell (lboard l) (store g) r c of
                     Inl (e, (b1, h1)) \<Rightarrow> Inl (e, with_board n b1 h1 g1)
                   | Inr (b1, h1) \<Rightarrow> Inr (with_board n b1 h1 g1))))"

text \<open>
  The body of the loop for one projectile. With a positive range the projectile is moved
  by its step in the next direction of its actuator and the range is reduced by the
  step; a position that did not change is a collision. A directional collision calls
  \<^verbatim>\<open>hit\<close> with a placeholder Void, and then again with the item of the cell beyond the
  projectile if that cell is on the board. The argument \<open>uuid\<close> is for the pickup that the
  move may perform.
\<close>

definition actuate_projectile :: "string \<Rightarrow> int \<Rightarrow> oid \<Rightarrow> game \<Rightarrow> game res" where
  "actuate_projectile uuid n p g =
     (case boards g n of
        None \<Rightarrow> Inl (KeyError, g)
      | Some l \<Rightarrow>
          (case actuator (objs (store g) p) of
             None \<Rightarrow> Inl (AttributeError, g)
           | Some a \<Rightarrow>
               if astate a = RUNNING then
                 (if proj_range (objs (store g) p) > 0 then
                    (let init_position = pos (objs (store g) p);
                         h1 = upd p (\<lambda>x. x\<lparr>actuator := Some (snd (next_move a))\<rparr>) (store g);
                         direction = fst (next_move a)
                     in case step (objs h1 p) of
                          None \<Rightarrow> Inl (TypeError, g\<lparr>store := h1\<rparr>)
                        | Some s \<Rightarrow>
                            (case move uuid (lboard l) h1 p direction s of
                               Inl (e, (b1, h2)) \<Rightarrow> Inl (e, with_board n b1 h2 g)
                             | Inr (b1, h2) \<Rightarrow>
                                 (let h3 = upd p (\<lambda>x. x\<lparr>proj_range := proj_range x - s\<rparr>) h2;
                                      g1 = with_board n b1 h3 g
                                  in if pos (objs h3 p) = init_position then
                                       (if is_aoe (objs h3 p) then aoe_hit p g1
                                        else
                                          (let g2 = void_hit p g1
                                           in case (case pos (objs h3 p) of
                                                      None \<Rightarrow> None
                                                    | Some rc \<Rightarrow> beyond direction rc s) of
                                                None \<Rightarrow> Inr g2
                                              | Some (new_x, new_y) \<Rightarrow>
                                                  if new_x \<ge> 0 \<and> new_y \<ge> 0
                                                     \<and> new_x < height b1 \<and> new_y < width b1
                                                  then (case item b1 new_x new_y of
                                                          Inl e \<Rightarrow> Inl (e, g2)
                                                        | Inr x \<Rightarrow> Inr (hit p [x] g2))
                                                  else Inr g2))
                                     else Inr g1)))
                  else if proj_range (objs (store g) p) = 0 then
                    (if is_aoe (objs (store g) p) then aoe_hit p g else Inr (void_hit p g))
                  else leave_roster n p g)
               else if astate a = STOPPED then leave_roster n p g
               else Inr g))"

text \<open>
  The loop over the roster. Python visits the indices 0, 1, ... of the list as long as
  the index is below the current length, also when the body removes an element. The
  roster never grows, so there are at most as many passes as it has elements at the
  start; the first argument counts them down.
\<close>

fun actuate_loop :: "nat \<Rightarrow> string \<Rightarrow> int \<Rightarrow> nat \<Rightarrow> game \<Rightarrow> game res" where
  "actuate_loop 0 uuid n i g = Inr g"
| "actuate_loop (Suc k) uuid n i g =
     (case boards g n of
        None \<Rightarrow> Inl (KeyError, g)
      | Some l \<Rightarrow>
          if i < length (projectiles l) then
            (case actuate_projectile uuid n (projectiles l ! i) g of
               Inl e \<Rightarrow> Inl e
             | Inr g1 \<Rightarrow> actuate_loop k uuid n (Suc i) g1)
          else Inr g)"

definition actuate_projectiles :: "string \<Rightarrow> game \<Rightarrow> int \<Rightarrow> game res" where
  "actuate_projectiles uuid g level_number =
     (if state g = RUNNING then
        (case boards g level_number of
           None \<Rightarrow> Inl (PglInvalidLevelException, g)
         | Some l \<Rightarrow> actuate_loop (length (projectiles l)) uuid level_number 0 g)
      else Inr g)"

text \<open>
  A directional projectile of range 5 and step 1 at (0,0) of the 5 by 5 board, with the
  default actuator, and a Wall at (0,1).
\<close>

definition shot_heap :: heap where
  "shot_heap =
     heap_with
       [(0, (new_item Projectile ''arrow'')
              \<lparr>pos := Some (0, 0), parent := Some ParentBoard,
               actuator := Some \<lparr>astate = RUNNING, moves = [], repeated = RIGHT\<rparr>\<rparr>),
        (1, wall_at (0, 1))] 25"

definition shot_game :: game where
  "shot_game =
     \<lparr> boards = [1 \<mapsto> \<lparr>lboard = board5 {0} {1}, npcs = [], projectiles = [0]\<rparr>],
       current_level = Some 1, player = None, state = RUNNING, store = shot_heap,
       hit_log = [] \<rparr>"

section \<open>Indexing lemmas\<close>

lemma py_index_nonneg:
  "0 \<le> i \<Longrightarrow> i < int (length xs) \<Longrightarrow> py_index xs i = Some (nat i)"
  by (simp add: py_index_def)

lemma py_index_wrap:
  "- int (length xs) \<le> i \<Longrightarrow> i < int (length xs) \<Longrightarrow>
   py_index xs i = Some (nat (i mod int (length xs)))"
proof (cases "0 \<le> i")
  case True
  assume "i < int (length xs)"
  with True show ?thesis by (simp add: py_index_def)
next
  case False
  assume lo: "- int (length xs) \<le> i"
  from False lo have "i mod int (length xs) = i + int (length xs)"
    by (smt (verit) mod_add_self2 mod_pos_pos_trivial)
  with False lo show ?thesis by (simp add: py_index_def)
qed

lemma py_index_bound: "py_index xs i = Some k \<Longrightarrow> k < length xs"
  by (auto simp: py_index_def Let_def split: if_splits)

lemma py_index_none:
  "py_index xs i = None \<longleftrightarrow> i < - int (length xs) \<or> int (length xs) \<le> i"
  by (auto simp: py_index_def Let_def)

lemma rect_row: "rect m h w \<Longrightarrow> k < length m \<Longrightarrow> length (m ! k) = nat w"
  by (simp add: rect_def list_all_length)

lemma rect_put: "rect m h w \<Longrightarrow> rect (put m r c v) h w"
proof -
  assume a: "rect m h w"
  have "length ((put m r c v) ! k) = nat w" if "k < length m" for k
  proof (cases "k = nat r")
    case True
    with that a show ?thesis by (simp add: put_def rect_row)
  next
    case False
    with that a show ?thesis by (simp add: put_def rect_row)
  qed
  with a show ?thesis by (simp add: rect_def list_all_length put_def)
qed

lemma get2_inside:
  assumes "rect m h w" "0 \<le> r" "r < h" "0 \<le> c" "c < w"
  shows "get2 m r c = Some (cell m r c)"
proof -
  from assms have r: "nat r < length m" by (simp add: rect_def)
  with assms have "length (m ! nat r) = nat w" by (simp add: rect_row)
  with assms r show ?thesis
    by (simp add: get2_def cell_def py_index_nonneg rect_def)
qed

lemma set2_inside:
  assumes "rect m h w" "0 \<le> r" "r < h" "0 \<le> c" "c < w"
  shows "set2 m r c v = Some (put m r c v)"
proof -
  from assms have r: "nat r < length m" by (simp add: rect_def)
  with assms have "length (m ! nat r) = nat w" by (simp add: rect_row)
  with assms r show ?thesis
    by (simp add: set2_def put_def py_index_nonneg rect_def)
qed

lemma cell_put:
  assumes "rect m h w" "0 \<le> r" "r < h" "0 \<le> c" "c < w" "0 \<le> r'" "r' < h" "0 \<le> c'" "c' < w"
  shows "cell (put m r c v) r' c' = (if r' = r \<and> c' = c then v else cell m r' c')"
proof -
  from assms have r: "nat r < length m" and r': "nat r' < length m"
    by (simp_all add: rect_def)
  with assms have l: "length (m ! nat r) = nat w" by (simp add: rect_row)
  from assms have "nat r' = nat r \<longleftrightarrow> r' = r" and "nat c' = nat c \<longleftrightarrow> c' = c" by auto
  with assms r r' l show ?thesis
    by (auto simp: cell_def put_def nth_list_update)
qed

lemma get2_wrap:
  assumes "rect m h w" "- h \<le> r" "r < h" "- w \<le> c" "c < w"
  shows "get2 m r c = Some (m ! nat (r mod h) ! nat (c mod w))"
proof -
  from assms have h: "int (length m) = h" by (auto simp: rect_def)
  with assms have i: "py_index m r = Some (nat (r mod h))"
    using py_index_wrap [of m r] by simp
  then have "nat (r mod h) < length m" by (rule py_index_bound)
  with assms have "length (m ! nat (r mod h)) = nat w" by (simp add: rect_row)
  moreover from assms have "int (nat w) = w" by simp
  ultimately have "py_index (m ! nat (r mod h)) c = Some (nat (c mod w))"
    using py_index_wrap [of "m ! nat (r mod h)" c] assms by simp
  with i show ?thesis by (simp add: get2_def)
qed

lemma set2_wrap:
  assumes "rect m h w" "- h \<le> r" "r < h" "- w \<le> c" "c < w"
  shows "set2 m r c v =
         Some (m[nat (r mod h) := (m ! nat (r mod h))[nat (c mod w) := v]])"
proof -
  from assms have h: "int (length m) = h" by (auto simp: rect_def)
  with assms have i: "py_index m r = Some (nat (r mod h))"
    using py_index_wrap [of m r] by simp
  then have "nat (r mod h) < length m" by (rule py_index_bound)
  with assms have "length (m ! nat (r mod h)) = nat w" by (simp add: rect_row)
  moreover from assms have "int (nat w) = w" by simp
  ultimately have "py_index (m ! nat (r mod h)) c = Some (nat (c mod w))"
    using py_index_wrap [of "m ! nat (r mod h)" c] assms by simp
  with i show ?thesis by (simp add: set2_def)
qed

section \<open>Negative coordinates\<close>

lemma board5_facts:
  "height (board5 mv im) = 5" "width (board5 mv im) = 5"
  "matrix (board5 mv im) = grid5" "overlapped_matrix (board5 mv im) = no_overlap5"
  "movables (board5 mv im) = mv" "immovables (board5 mv im) = im"
  by (simp_all add: board5_def board_of_def height_def width_def)

lemma board5_wf: "wf_board (board5 mv im)"
  by (simp add: wf_board_def rect_def board5_facts grid5_def no_overlap5_def)

lemma place_item_wrap:
  assumes wf: "wf_board b"
    and r: "- height b \<le> row" "row < height b"
    and c: "- width b \<le> column" "column < width b"
  shows "\<exists>b' h'. place_item b h it row column = Inr (b', h')
           \<and> matrix b' = (matrix b)[nat (row mod height b) :=
                (matrix b ! nat (row mod height b))[nat (column mod width b) := it]]
           \<and> pos (objs h' it) = Some (row, column)"
proof -
  from wf have m: "rect (matrix b) (height b) (width b)"
    and om: "rect (overlapped_matrix b) (height b) (width b)"
    by (simp_all add: wf_board_def)
  note g = get2_wrap [OF m r c] and s = set2_wrap [OF m r c] and so = set2_wrap [OF om r c]
  show ?thesis
    using r c
    by (simp add: place_item_def g s so Let_def upd_def store_position_def register_item_def
        split: option.splits parent_ref.splits)
qed

lemma item_wrap:
  assumes "wf_board b"
    and "- height b \<le> row" "row < height b"
    and "- width b \<le> column" "column < width b"
  shows "item b row column
           = Inr (matrix b ! nat (row mod height b) ! nat (column mod width b))"
proof -
  from assms have "get2 (matrix b) row column
      = Some (matrix b ! nat (row mod height b) ! nat (column mod width b))"
    by (simp add: get2_wrap wf_board_def)
  with assms show ?thesis by (simp add: item_def)
qed

text \<open>
  Claim C10 at a row or column below the negative of the size. \<^verbatim>\<open>Board.item\<close> and
  \<^verbatim>\<open>Board.place_item\<close> test the upper bounds only, where their docstrings promise the
  out-of-bounds exception for coordinates outside the board and the other methods of the
  engine test \<open>0 \<le>\<close> as well. On the 5 by 5 board, row and column \<open>- 1\<close> are accepted:
  \<^verbatim>\<open>item\<close> returns the last cell, \<^verbatim>\<open>place_item\<close> writes the item there and stores the
  position \<open>(- 1, - 1)\<close>. Row \<open>- 6\<close> or column \<open>- 6\<close> is negative and below the upper
  bound as well, yet no cell is returned or written: the list access raises IndexError.
\<close>

theorem negative_index_raises:
  "item (board5 {} {}) (- 1) (- 1) = Inr 24
   \<and> item (board5 {} {}) (- 6) 0 = Inl IndexError
   \<and> item (board5 {} {}) 0 (- 6) = Inl IndexError
   \<and> (\<exists>b' h'. place_item (board5 {} {}) spare_heap 25 (- 1) (- 1) = Inr (b', h')
         \<and> cell (matrix b') 4 4 = 25 \<and> pos (objs h' 25) = Some (- 1, - 1))
   \<and> place_item (board5 {} {}) spare_heap 25 (- 6) 0
       = Inl (IndexError, (board5 {} {}, spare_heap))
   \<and> place_item (board5 {} {}) spare_heap 25 0 (- 6)
       = Inl (IndexError, (board5 {} {}, spare_heap))"
proof -
  let ?b = "board5 {} {}"
  have 1: "item ?b (- 1) (- 1) = Inr 24"
    using item_wrap [OF board5_wf, of "{}" "{}" "- 1" "- 1"]
    by (simp add: board5_facts grid5_def)
  have 2: "item ?b (- 6) 0 = Inl IndexError"
    by (simp add: item_def get2_def py_index_def board5_facts grid5_def)
  have 3: "item ?b 0 (- 6) = Inl IndexError"
    by (simp add: item_def get2_def py_index_def board5_facts grid5_def)
  from place_item_wrap [OF board5_wf, of "{}" "{}" "- 1" "- 1" spare_heap 25]
  have 4: "\<exists>b' h'. place_item ?b spare_heap 25 (- 1) (- 1) = Inr (b', h')
         \<and> cell (matrix b') 4 4 = 25 \<and> pos (objs h' 25) = Some (- 1, - 1)"
    by (auto simp: board5_facts grid5_def cell_def)
  have 5: "place_item ?b spare_heap 25 (- 6) 0 = Inl (IndexError, (?b, spare_heap))"
    by (simp add: place_item_def get2_def py_index_def board5_facts grid5_def)
  have 6: "place_item ?b spare_heap 25 0 (- 6) = Inl (IndexError, (?b, spare_heap))"
    by (simp add: place_item_def get2_def py_index_def board5_facts grid5_def)
  from 1 2 3 4 5 6 show ?thesis by simp
qed

section \<open>The effect of place_item on a cell of the board\<close>

lemma inside_rect:
  "wf_board b \<Longrightarrow> inside b r c \<Longrightarrow>
   rect (matrix b) (height b) (width b) \<and> rect (overlapped_matrix b) (height b) (width b)
   \<and> 0 \<le> r \<and> r < height b \<and> 0 \<le> c \<and> c < width b"
  by (simp add: wf_board_def inside_def)

lemma get2_matrix:
  "wf_board b \<Longrightarrow> inside b r c \<Longrightarrow> get2 (matrix b) r c = Some (cell (matrix b) r c)"
  using get2_inside [of "matrix b" "height b" "width b" r c] by (simp add: inside_rect)

lemma get2_overlapped:
  "wf_board b \<Longrightarrow> inside b r c \<Longrightarrow>
   get2 (overlapped_matrix b) r c = Some (cell (overlapped_matrix b) r c)"
  using get2_inside [of "overlapped_matrix b" "height b" "width b" r c]
  by (simp add: inside_rect)

lemma set2_matrix:
  "wf_board b \<Longrightarrow> inside b r c \<Longrightarrow> set2 (matrix b) r c v = Some (put (matrix b) r c v)"
  using set2_inside [of "matrix b" "height b" "width b" r c] by (simp add: inside_rect)

lemma set2_overlapped:
  "wf_board b \<Longrightarrow> inside b r c \<Longrightarrow>
   set2 (overlapped_matrix b) r c v = Some (put (overlapped_matrix b) r c v)"
  using set2_inside [of "overlapped_matrix b" "height b" "width b" r c]
  by (simp add: inside_rect)

lemma cell_put_matrix:
  "wf_board b \<Longrightarrow> inside b r c \<Longrightarrow> inside b r' c' \<Longrightarrow>
   cell (put (matrix b) r c v) r' c' = (if r' = r \<and> c' = c then v else cell (matrix b) r' c')"
  using cell_put [of "matrix b" "height b" "width b" r c r' c' v]
  by (simp add: wf_board_def inside_def)

lemma cell_put_overlapped:
  "wf_board b \<Longrightarrow> inside b r c \<Longrightarrow> inside b r' c' \<Longrightarrow>
   cell (put (overlapped_matrix b) r c v) r' c'
     = (if r' = r \<and> c' = c then v else cell (overlapped_matrix b) r' c')"
  using cell_put [of "overlapped_matrix b" "height b" "width b" r c r' c' v]
  by (simp add: wf_board_def inside_def)

lemma register_item_fields [simp]:
  "matrix (register_item it x b) = matrix b"
  "overlapped_matrix (register_item it x b) = overlapped_matrix b"
  "board_size (register_item it x b) = board_size b"
  "ui_board_void_cell (register_item it x b) = ui_board_void_cell b"
  "ui_board_void_cell_sprixel (register_item it x b) = ui_board_void_cell_sprixel b"
  by (simp_all add: register_item_def split: option.splits parent_ref.splits)

lemma void_cell_register_item [simp]: "void_cell (register_item it x b) = void_cell b"
  by (simp add: void_cell_def split: option.splits)

lemma place_item_inside:
  assumes "wf_board b" "inside b r c"
  shows "place_item b h it r c = Inr (placed b h it r c)"
proof -
  from assms have ub: "r < height b \<and> c < width b" by (simp add: inside_def)
  note g = get2_matrix [OF assms] and s = set2_matrix [OF assms]
    and so = set2_overlapped [OF assms]
  show ?thesis
    unfolding place_item_def placed_def
    by (simp add: ub g so s Let_def)
qed

lemma placed_matrix:
  "matrix (fst (placed b h it r c)) = put (matrix b) r c it"
  "overlapped_matrix (fst (placed b h it r c))
     = (if keeps h (cell (matrix b) r c)
        then put (overlapped_matrix b) r c (Some (cell (matrix b) r c))
        else overlapped_matrix b)"
  by (simp_all add: placed_def Let_def)

lemma placed_board [simp]:
  "board_size (fst (placed b h it r c)) = board_size b"
  "ui_board_void_cell (fst (placed b h it r c)) = ui_board_void_cell b"
  "ui_board_void_cell_sprixel (fst (placed b h it r c)) = ui_board_void_cell_sprixel b"
  by (simp_all add: placed_def Let_def)

lemma void_cell_placed [simp]: "void_cell (fst (placed b h it r c)) = void_cell b"
  by (simp add: void_cell_def split: option.splits)

lemma placed_size [simp]:
  "height (fst (placed b h it r c)) = height b"
  "width (fst (placed b h it r c)) = width b"
  "inside (fst (placed b h it r c)) r' c' = inside b r' c'"
  by (simp_all add: height_def width_def inside_def)

lemma placed_wf: "wf_board b \<Longrightarrow> wf_board (fst (placed b h it r c))"
  by (simp add: wf_board_def rect_put placed_matrix)

lemma placed_cell:
  assumes "wf_board b" "inside b r c" "inside b r' c'"
  shows "cell (matrix (fst (placed b h it r c))) r' c'
           = (if r' = r \<and> c' = c then it else cell (matrix b) r' c')"
    and "cell (overlapped_matrix (fst (placed b h it r c))) r' c'
           = (if r' = r \<and> c' = c \<and> keeps h (cell (matrix b) r c)
              then Some (cell (matrix b) r c) else cell (overlapped_matrix b) r' c')"
  using assms by (simp_all add: placed_matrix cell_put_matrix cell_put_overlapped)

lemma adopt_bg_objs:
  "objs (adopt_bg it e h) i
     = (if i = it then (objs h it)\<lparr>sprixel := sprixel (objs (adopt_bg it e h) it)\<rparr>
        else objs h i)"
  by (simp add: adopt_bg_def upd_def split: option.splits)

lemma adopt_bg_next [simp]: "next_oid (adopt_bg it e h) = next_oid h"
  by (simp add: adopt_bg_def upd_def split: option.splits)

lemma adopt_bg_core [simp]: "core (objs (adopt_bg it e h) i) = core (objs h i)"
  by (subst adopt_bg_objs) (simp add: core_def)

lemma adopt_bg_pos [simp]: "pos (objs (adopt_bg it e h) i) = pos (objs h i)"
  by (subst adopt_bg_objs) simp

lemma adopt_bg_inventory [simp]: "inventory (objs (adopt_bg it e h) i) = inventory (objs h i)"
  by (subst adopt_bg_objs) simp

lemma adopt_bg_keeps [simp]: "keeps (adopt_bg it e h) i = keeps h i"
  by (subst (1) keeps_def, subst (1 2 3) adopt_bg_objs) (simp add: keeps_def)

lemma upd_objs: "objs (upd i f h) j = (if j = i then f (objs h i) else objs h j)"
  by (simp add: upd_def)

lemma upd_next [simp]: "next_oid (upd i f h) = next_oid h"
  by (simp add: upd_def)

lemma store_position_fields [simp]:
  "core (store_position r c (adopt_parent x)) = core x"
  "pos (store_position r c (adopt_parent x)) = Some (r, c)"
  "inventory (store_position r c (adopt_parent x)) = inventory x"
  by (simp_all add: core_def store_position_def adopt_parent_def)

lemma placed_heap [simp]:
  "next_oid (snd (placed b h it r c)) = next_oid h"
  "core (objs (snd (placed b h it r c)) i) = core (objs h i)"
  "pos (objs (snd (placed b h it r c)) i) = (if i = it then Some (r, c) else pos (objs h i))"
  "inventory (objs (snd (placed b h it r c)) i) = inventory (objs h i)"
  by (simp_all add: placed_def Let_def upd_objs)

lemma core_fields:
  "core x = core y \<Longrightarrow>
     cls x = cls y \<and> pickable x = pickable y \<and> overlappable x = overlappable y
     \<and> restorable x = restorable y \<and> can_move x = can_move y \<and> perm x = perm y
     \<and> inventory_space x = inventory_space y \<and> item_value x = item_value y"
proof -
  assume e: "core x = core y"
  have "cls x = cls (core x)" "pickable x = pickable (core x)"
    "overlappable x = overlappable (core x)" "restorable x = restorable (core x)"
    "can_move x = can_move (core x)" "perm x = perm (core x)"
    "inventory_space x = inventory_space (core x)" "item_value x = item_value (core x)"
    by (simp_all add: core_def)
  moreover have "cls y = cls (core y)" "pickable y = pickable (core y)"
    "overlappable y = overlappable (core y)" "restorable y = restorable (core y)"
    "can_move y = can_move (core y)" "perm y = perm (core y)"
    "inventory_space y = inventory_space (core y)" "item_value y = item_value (core y)"
    by (simp_all add: core_def)
  ultimately show ?thesis using e by simp
qed

lemma core_keeps: "core (objs h' e) = core (objs h e) \<Longrightarrow> keeps h' e = keeps h e"
  by (auto simp: keeps_def dest: core_fields)

lemma placed_keeps [simp]: "keeps (snd (placed b h it r c)) e = keeps h e"
  by (rule core_keeps) simp

lemma placed_sets:
  "movables b \<subseteq> movables (fst (placed b h it r c))"
  "immovables b \<subseteq> immovables (fst (placed b h it r c))"
  by (auto simp: placed_def Let_def register_item_def split: option.splits parent_ref.splits)

section \<open>Refused moves\<close>

lemma move_out_of_bounds:
  assumes "is_Movable (cls (objs h it))" "can_move (objs h it)"
    and "pos (objs h it) = Some (r, c)" "offset direction stp = Some (dr, dc)"
    and "\<not> inside b (r + dr) (c + dc)"
  shows "move uuid b h it direction stp = Inr (b, h)"
  using assms by (auto simp: move_def move_simple_def inside_def Let_def)

lemma activate_fields [simp]:
  "overlappable (objs (activate d h) i) = overlappable (objs h i)"
  "pickable (objs (activate d h) i) = pickable (objs h i)"
  "inventory (objs (activate d h) i) = inventory (objs h i)"
  "pos (objs (activate d h) i) = pos (objs h i)"
  "cls (objs (activate d h) i) = cls (objs h i)"
  "core (objs (activate d h) i) = core (objs h i)"
  "name (objs (activate d h) i) = name (objs h i)"
  "next_oid (activate d h) = next_oid h"
  by (simp_all add: activate_def upd_objs core_def)

lemma pickup_skipped:
  assumes "get2 (matrix b) r c = Some d"
    and "overlappable (objs h d) \<or> \<not> pickable (objs h d) \<or> inventory (objs h it) = None"
  shows "pickup uuid b h it r c = Inr (b, h)"
  using assms by (auto simp: pickup_def split: option.splits)

lemma move_blocked:
  assumes "is_Movable (cls (objs h it))" "can_move (objs h it)"
    and "pos (objs h it) = Some (r, c)" "offset direction stp = Some (dr, dc)"
    and "inside b (r + dr) (c + dc)"
    and "get2 (matrix b) (r + dr) (c + dc) = Some d"
    and "\<not> overlappable (objs h d)"
    and "\<not> (pickable (objs h d) \<and> inventory (objs h it) \<noteq> None)"
  shows "move uuid b h it direction stp
         = Inr (b, if may_activate (objs h it) (objs h d) then activate d h else h)"
proof -
  let ?h1 = "if may_activate (objs h it) (objs h d) then activate d h else h"
  from assms have "overlappable (objs ?h1 d) \<or> \<not> pickable (objs ?h1 d)
      \<or> inventory (objs ?h1 it) = None" by auto
  with assms(6) have p: "pickup uuid b ?h1 it (r + dr) (c + dc) = Inr (b, ?h1)"
    by (rule pickup_skipped)
  from assms have no: "\<not> overlappable (objs ?h1 d)" by simp
  from assms(5) have ins: "0 \<le> r + dr \<and> 0 \<le> c + dc \<and> r + dr < height b \<and> c + dc < width b"
    by (simp add: inside_def)
  show ?thesis
    unfolding move_def move_simple_def settle_def
    using assms(1-4,6) ins p no by (simp add: Let_def)
qed

lemma move_refused_pickup:
  assumes "is_Movable (cls (objs h it))" "can_move (objs h it)"
    and "pos (objs h it) = Some (r, c)" "offset direction stp = Some (dr, dc)"
    and "inside b (r + dr) (c + dc)"
    and "get2 (matrix b) (r + dr) (c + dc) = Some d"
    and "\<not> overlappable (objs h d)" "\<not> may_activate (objs h it) (objs h d)"
    and "pickable (objs h d)" "inventory (objs h it) = Some iv"
    and "add_item uuid iv h d = Inl (e, st)"
  shows "move uuid b h it direction stp = Inl (e, (b, snd st))"
proof -
  from assms(5) have ins: "0 \<le> r + dr \<and> 0 \<le> c + dc \<and> r + dr < height b \<and> c + dc < width b"
    by (simp add: inside_def)
  obtain iv1 h1 where st: "st = (iv1, h1)" by (cases st)
  show ?thesis
    unfolding move_def move_simple_def pickup_def
    using assms(1-4,6-11) ins st by (simp add: Let_def)
qed

text \<open>
  Claim C2, as the code has it. Let the item be a Movable that can move, with a stored
  position, and let the direction be one that designates a destination. If the
  destination lies outside the board, \<^verbatim>\<open>Board.move\<close> returns with the very same board and
  store. If the destination is a cell of the board that holds a non-overlappable item
  which the mover does not activate, then: if no pickup is attempted (the item is not
  pickable, or the mover has no inventory), \<^verbatim>\<open>Board.move\<close> returns with the very same
  board and store; if the item is pickable, the mover has an inventory and
  \<^verbatim>\<open>Inventory.add_item\<close> raises, then \<^verbatim>\<open>Board.move\<close> raises the same exception, the board
  is unchanged and the store is as \<^verbatim>\<open>add_item\<close> left it.
\<close>

theorem refused_move_changes_nothing:
  assumes "is_Movable (cls (objs h it))" "can_move (objs h it)"
    and "pos (objs h it) = Some (r, c)" "offset direction stp = Some (dr, dc)"
  shows "(\<not> inside b (r + dr) (c + dc) \<longrightarrow> move uuid b h it direction stp = Inr (b, h))
     \<and> (\<forall>d. inside b (r + dr) (c + dc) \<and> get2 (matrix b) (r + dr) (c + dc) = Some d
             \<and> \<not> overlappable (objs h d) \<and> \<not> may_activate (objs h it) (objs h d)
           \<longrightarrow> (\<not> (pickable (objs h d) \<and> inventory (objs h it) \<noteq> None)
                   \<longrightarrow> move uuid b h it direction stp = Inr (b, h))
               \<and> (\<forall>iv e st. pickable (objs h d) \<and> inventory (objs h it) = Some iv
                              \<and> add_item uuid iv h d = Inl (e, st)
                     \<longrightarrow> move uuid b h it direction stp = Inl (e, (b, snd st))))"
proof (intro conjI impI allI)
  assume "\<not> inside b (r + dr) (c + dc)"
  with assms show "move uuid b h it direction stp = Inr (b, h)"
    by (rule move_out_of_bounds)
next
  fix d
  assume a: "inside b (r + dr) (c + dc) \<and> get2 (matrix b) (r + dr) (c + dc) = Some d
             \<and> \<not> overlappable (objs h d) \<and> \<not> may_activate (objs h it) (objs h d)"
    and n: "\<not> (pickable (objs h d) \<and> inventory (objs h it) \<noteq> None)"
  from a n move_blocked [OF assms, of b d uuid]
  show "move uuid b h it direction stp = Inr (b, h)" by simp
next
  fix d iv e st
  assume a: "inside b (r + dr) (c + dc) \<and> get2 (matrix b) (r + dr) (c + dc) = Some d
             \<and> \<not> overlappable (objs h d) \<and> \<not> may_activate (objs h it) (objs h d)"
    and r: "pickable (objs h d) \<and> inventory (objs h it) = Some iv
            \<and> add_item uuid iv h d = Inl (e, st)"
  from a r move_refused_pickup [OF assms, of b d iv uuid e st]
  show "move uuid b h it direction stp = Inl (e, (b, snd st))" by simp
qed

lemma wall_heap_facts:
  "is_Movable (cls (objs wall_heap 0))" "can_move (objs wall_heap 0)"
  "pos (objs wall_heap 0) = Some (0, 0)"
  "\<not> overlappable (objs wall_heap 1)" "\<not> pickable (objs wall_heap 1)"
  by (simp_all add: wall_heap_def heap_with_def player_at_def wall_at_def new_item_def)

lemma full_heap_facts:
  "is_Movable (cls (objs full_heap 0))" "can_move (objs full_heap 0)"
  "pos (objs full_heap 0) = Some (0, 0)"
  "\<not> overlappable (objs full_heap 1)" "pickable (objs full_heap 1)"
  "inventory (objs full_heap 0) = Some \<lparr>max_size = 1, items = []\<rparr>"
  "\<not> may_activate (objs full_heap 0) (objs full_heap 1)"
  "add_item ''u'' \<lparr>max_size = 1, items = []\<rparr> full_heap 1
     = Inl (PglInventoryException not_enough_space, (\<lparr>max_size = 1, items = []\<rparr>, full_heap))"
  by (simp_all add: full_heap_def heap_with_def player_at_def treasure_at_def new_item_def
      may_activate_def add_item_def inv_size_def items_name_def)

text \<open>
  The spec's scenarios 2 and 5, and a refused pickup: the Player at (0,0) of the 5 by 5
  board is stopped by the edge when moving up and by the Wall at (0,1) when moving
  right; with a Treasure of space 2 at (0,1) and an inventory of capacity 1 the move
  raises \<open>not_enough_space\<close>.
\<close>

theorem refused_move_witness:
  "move ''u'' (board5 {0} {1}) wall_heap 0 UP 1 = Inr (board5 {0} {1}, wall_heap)
   \<and> move ''u'' (board5 {0} {1}) wall_heap 0 RIGHT 1 = Inr (board5 {0} {1}, wall_heap)
   \<and> move ''u'' (board5 {0} {1}) full_heap 0 RIGHT 1
       = Inl (PglInventoryException not_enough_space, (board5 {0} {1}, full_heap))"
proof -
  let ?b = "board5 {0} {1}"
  have g: "get2 (matrix ?b) (0 + 0) (0 + 1) = Some 1"
    by (simp add: board5_facts grid5_def get2_def py_index_def)
  have r: "offset RIGHT 1 = Some (0, 1)" and u: "offset UP 1 = Some (- 1, 0)" by simp_all
  have out: "\<not> inside ?b (0 + - 1) (0 + 0)" and ins: "inside ?b (0 + 0) (0 + 1)"
    by (simp_all add: inside_def board5_facts)
  have na: "\<not> may_activate (objs wall_heap 0) (objs wall_heap 1)"
    by (simp add: may_activate_def wall_heap_def heap_with_def wall_at_def new_item_def)
  from refused_move_changes_nothing [OF wall_heap_facts(1-3) u, of ?b "''u''"] out
  have 1: "move ''u'' ?b wall_heap 0 UP 1 = Inr (?b, wall_heap)" by blast
  from refused_move_changes_nothing [OF wall_heap_facts(1-3) r, of ?b "''u''"]
    ins g wall_heap_facts(4,5) na
  have 2: "move ''u'' ?b wall_heap 0 RIGHT 1 = Inr (?b, wall_heap)" by blast
  from refused_move_changes_nothing [OF full_heap_facts(1-3) r, of ?b "''u''"]
    ins g full_heap_facts(4-8)
  have 3: "move ''u'' ?b full_heap 0 RIGHT 1
      = Inl (PglInventoryException not_enough_space, (?b, full_heap))"
    by fastforce
  from 1 2 3 show ?thesis by simp
qed


text \<open>
  Claim C2 as stated fails. The Player's inventory has capacity 1 and the Treasure at
  (0,1) needs 2: the Treasure is not overlappable and is not consumed by the pickup (it
  stays in the matrix and the inventory stays empty), yet \<^verbatim>\<open>Board.move\<close> does not return:
  the exception of \<^verbatim>\<open>Inventory.add_item\<close> leaves it.
\<close>

theorem refused_move_counterexample:
  "is_Movable (cls (objs full_heap 0)) \<and> can_move (objs full_heap 0)
   \<and> get2 (matrix (board5 {0} {1})) 0 1 = Some 1 \<and> \<not> overlappable (objs full_heap 1)
   \<and> move ''u'' (board5 {0} {1}) full_heap 0 RIGHT 1
       = Inl (PglInventoryException not_enough_space, (board5 {0} {1}, full_heap))"
  by (simp add: move_def move_simple_def settle_def pickup_def add_item_def may_activate_def
      board5_facts grid5_def full_heap_def heap_with_def player_at_def treasure_at_def
      new_item_def get2_def py_index_def Let_def inv_size_def items_name_def)

section \<open>Inventory capacity\<close>

lemma inv_size_alt: "inv_size h iv = sum_list (map (space_of h) (items iv))"
  by (simp add: inv_size_def space_of_def)

lemma sum_update_le:
  fixes f :: "'k \<times> 'v \<Rightarrow> int"
  assumes "\<forall>x. 0 \<le> f x"
  shows "sum_list (map f (AList.update k v al)) \<le> sum_list (map f al) + f (k, v)"
proof (induction al)
  case Nil
  show ?case by simp
next
  case (Cons a al)
  obtain k' v' where a: "a = (k', v')" by (cases a)
  from assms have "0 \<le> f (k', v')" "0 \<le> f (k, v')" by blast+
  with Cons a show ?case by auto
qed

lemma sum_update_fresh:
  fixes f :: "'k \<times> 'v \<Rightarrow> int"
  shows "k \<notin> fst ` set al \<Longrightarrow>
   sum_list (map f (AList.update k v al)) = sum_list (map f al) + f (k, v)"
  by (induction al) auto

lemma sum_delete_le:
  fixes f :: "'k \<times> 'v \<Rightarrow> int"
  assumes "\<forall>x. 0 \<le> f x"
  shows "sum_list (map f (AList.delete k al)) \<le> sum_list (map f al)"
proof (induction al)
  case Nil
  show ?case by simp
next
  case (Cons a al)
  obtain k' v' where a: "a = (k', v')" by (cases a)
  from assms have "0 \<le> f (k', v')" "0 \<le> f (k, v')" by blast+
  with Cons a show ?case by auto
qed

lemma space_of_nonneg: "spaces_nonneg h \<Longrightarrow> 0 \<le> space_of h x"
  by (cases x) (auto simp: space_of_def spaces_nonneg_def split: option.splits)

lemma rename_space [simp]:
  "inventory_space (objs (upd it (\<lambda>x. x\<lparr>name := n\<rparr>) h) i) = inventory_space (objs h i)"
  by (simp add: upd_objs)

lemma rename_space_of [simp]: "space_of (upd it (\<lambda>x. x\<lparr>name := n\<rparr>) h) = space_of h"
  by (simp add: space_of_def fun_eq_iff)

lemma rename_nonneg [simp]: "spaces_nonneg (upd it (\<lambda>x. x\<lparr>name := n\<rparr>) h) = spaces_nonneg h"
  by (simp add: spaces_nonneg_def)

lemma rename_inv_size [simp]: "inv_size (upd it (\<lambda>x. x\<lparr>name := n\<rparr>) h) iv = inv_size h iv"
  by (simp add: inv_size_alt)

lemma add_item_cases:
  assumes "pickable (objs h it)" "name (objs h it) = Some n" "inventory_space (objs h it) = Some s"
  shows "add_item uuid iv h it =
     (if inv_size h iv + s \<le> max_size iv
      then Inr (iv\<lparr>items := AList.update
                  (if n = [] \<or> n \<in> set (items_name iv) then n @ ''_'' @ uuid else n) it
                  (items iv)\<rparr>,
                if n = [] \<or> n \<in> set (items_name iv)
                then upd it (\<lambda>x. x\<lparr>name := Some (n @ ''_'' @ uuid)\<rparr>) h else h)
      else Inl (PglInventoryException not_enough_space,
                (iv, if n = [] \<or> n \<in> set (items_name iv)
                     then upd it (\<lambda>x. x\<lparr>name := Some (n @ ''_'' @ uuid)\<rparr>) h else h)))"
  using assms by (simp add: add_item_def upd_objs)

lemma add_item_failure:
  assumes "add_item uuid iv h it = Inl (e, (iv', h'))"
  shows "iv' = iv \<and> inv_size h' iv = inv_size h iv \<and> spaces_nonneg h' = spaces_nonneg h"
  using assms
  by (auto simp: add_item_def split: if_splits option.splits)

lemma add_item_success:
  assumes "add_item uuid iv h it = Inr (iv', h')" "spaces_nonneg h" "inv_size h iv \<le> max_size iv"
  shows "spaces_nonneg h' \<and> inv_size h' iv' \<le> max_size iv'"
proof -
  from assms(1) obtain n s where
    iv': "iv' = iv\<lparr>items := AList.update n it (items iv)\<rparr>"
    and sp: "inventory_space (objs h it) = Some s" "inv_size h iv + s \<le> max_size iv"
    and h': "spaces_nonneg h' = spaces_nonneg h" "space_of h' = space_of h"
    by (auto simp: add_item_def split: if_splits option.splits)
  from assms(2) have "\<forall>x. 0 \<le> space_of h x" by (simp add: space_of_nonneg)
  from sum_update_le [OF this, of n it "items iv"] sp
  have "inv_size h' iv' \<le> max_size iv'"
    unfolding inv_size_alt iv' h' by (simp add: space_of_def)
  with assms(2) h' show ?thesis by simp
qed

lemma delete_item_size:
  assumes "spaces_nonneg h" "inv_size h iv \<le> max_size iv"
  shows "after_call (delete_item iv h n) = (iv', h') \<Longrightarrow>
         spaces_nonneg h' \<and> inv_size h' iv' \<le> max_size iv'"
proof -
  assume a: "after_call (delete_item iv h n) = (iv', h')"
  from assms(1) have "\<forall>x. 0 \<le> space_of h x" by (simp add: space_of_nonneg)
  from sum_delete_le [OF this, of n "items iv"] assms a show ?thesis
    by (auto simp: delete_item_def inv_size_alt split: if_splits)
qed

lemma run_call_size:
  assumes "spaces_nonneg h" "inv_size h iv \<le> max_size iv" "run_call x (iv, h) = (iv', h')"
  shows "spaces_nonneg h' \<and> inv_size h' iv' \<le> max_size iv'"
proof (cases x)
  case (Add uuid it)
  show ?thesis
  proof (cases "add_item uuid iv h it")
    case (Inl a)
    obtain e iv1 h1 where a: "a = (e, (iv1, h1))" by (cases a) auto
    with Inl have f: "add_item uuid iv h it = Inl (e, (iv1, h1))" by simp
    from add_item_failure [OF f] have
      "iv1 = iv" "inv_size h1 iv = inv_size h iv" "spaces_nonneg h1 = spaces_nonneg h"
      by simp_all
    moreover from f Add assms(3) have "iv' = iv1" "h' = h1" by simp_all
    ultimately show ?thesis using assms(1,2) by simp
  next
    case (Inr a)
    with Add assms add_item_success [of uuid iv h it iv' h'] show ?thesis by simp
  qed
next
  case (Delete n)
  with assms delete_item_size [of h iv n iv' h'] show ?thesis by simp
qed

lemma run_calls_size:
  "spaces_nonneg h \<Longrightarrow> inv_size h iv \<le> max_size iv \<Longrightarrow> run_calls xs (iv, h) = (iv', h')
   \<Longrightarrow> inv_size h' iv' \<le> max_size iv'"
proof (induction xs arbitrary: iv h)
  case Nil
  then show ?case by simp
next
  case (Cons x xs)
  obtain iv1 h1 where s: "run_call x (iv, h) = (iv1, h1)" by (cases "run_call x (iv, h)")
  from run_call_size [OF Cons.prems(1,2) s] Cons.prems(3) s Cons.IH [of h1 iv1]
  show ?case by simp
qed


lemma add_item_not_enough_space:
  assumes "pickable (objs h it)" "name (objs h it) = Some n"
    and "inventory_space (objs h it) = Some s"
  shows "(\<exists>st. add_item uuid iv h it = Inl (PglInventoryException not_enough_space, st))
           \<longleftrightarrow> inv_size h iv + s > max_size iv"
  using add_item_cases [OF assms, of uuid iv] by auto

text \<open>
  The spec's scenario 6: in an inventory of capacity 3 that holds A (space 2), adding B
  (space 2) raises \<open>not_enough_space\<close> and the inventory still holds A only.
\<close>

lemma inventory_overflow_scenario:
  "add_item ''u'' \<lparr>max_size = 3, items = [(''A'', 0)]\<rparr> two_things 1
     = Inl (PglInventoryException not_enough_space,
            (\<lparr>max_size = 3, items = [(''A'', 0)]\<rparr>, two_things))"
  by (simp add: add_item_def two_things_def heap_with_def thing_def new_item_def
      inv_size_def items_name_def)

text \<open>
  Claim C7 at an item of negative space. The docstring of the class says that the total
  of the sizes cannot exceed \<open>max_size\<close>, and \<^verbatim>\<open>add_item\<close> tests the capacity, but
  \<^verbatim>\<open>inventory_space\<close> is an integer that nothing validates. With capacity 3, the items A
  (space 3), B (space \<open>- 2\<close>) and C (space 2) are all accepted, the size being 3, 1 and 3
  after the calls; deleting B then leaves A and C in the inventory, whose size is 5.
\<close>

theorem inventory_capacity_exceeded:
  "add_item ''u'' \<lparr>max_size = 3, items = []\<rparr> three_things 0
     = Inr (\<lparr>max_size = 3, items = [(''A'', 0)]\<rparr>, three_things)
   \<and> add_item ''u'' \<lparr>max_size = 3, items = [(''A'', 0)]\<rparr> three_things 1
     = Inr (\<lparr>max_size = 3, items = [(''A'', 0), (''B'', 1)]\<rparr>, three_things)
   \<and> add_item ''u'' \<lparr>max_size = 3, items = [(''A'', 0), (''B'', 1)]\<rparr> three_things 2
     = Inr (\<lparr>max_size = 3, items = [(''A'', 0), (''B'', 1), (''C'', 2)]\<rparr>, three_things)
   \<and> delete_item \<lparr>max_size = 3, items = [(''A'', 0), (''B'', 1), (''C'', 2)]\<rparr> three_things ''B''
     = Inr (\<lparr>max_size = 3, items = [(''A'', 0), (''C'', 2)]\<rparr>, three_things)
   \<and> inv_size three_things \<lparr>max_size = 3, items = [(''A'', 0), (''B'', 1), (''C'', 2)]\<rparr> = 3
   \<and> inv_size three_things \<lparr>max_size = 3, items = [(''A'', 0), (''C'', 2)]\<rparr> = 5"
  by (simp add: add_item_def delete_item_def three_things_def heap_with_def thing_def
      new_item_def inv_size_def items_name_def)

section \<open>Moves onto an overlappable cell\<close>

lemma void_cell_fields [simp]:
  "cls (void_cell b) = BoardItemVoid" "overlappable (void_cell b)"
  "\<not> restorable (void_cell b)" "\<not> pickable (void_cell b)"
  "parent (void_cell b) = Some ParentBoard" "pos (void_cell b) = None"
  "inventory (void_cell b) = None"
  by (simp_all add: void_cell_def new_void_def split: option.splits)

lemma with_void_simps [simp]:
  "objs (with_void b h) i
     = (if i = next_oid h
        then void_cell b else objs h i)"
  "next_oid (with_void b h) = Suc (next_oid h)"
  by (simp_all add: with_void_def generate_void_cell_def alloc_def)

lemma generate_void_cell_eq: "generate_void_cell b h = (next_oid h, with_void b h)"
  by (simp add: with_void_def generate_void_cell_def alloc_def)

lemma parks_activate [simp]: "parks (activate d h) e = parks h e"
  by (simp add: parks_def activate_def upd_objs)

lemma arrive_board [simp]:
  "matrix (fst (arrive b h it nr nc)) = matrix b"
  "board_size (fst (arrive b h it nr nc)) = board_size b"
  "movables (fst (arrive b h it nr nc)) = movables b"
  "immovables (fst (arrive b h it nr nc)) = immovables b"
  "ui_board_void_cell (fst (arrive b h it nr nc)) = ui_board_void_cell b"
  "ui_board_void_cell_sprixel (fst (arrive b h it nr nc)) = ui_board_void_cell_sprixel b"
  by (simp_all add: arrive_def Let_def)

lemma void_cell_arrive [simp]: "void_cell (fst (arrive b h it nr nc)) = void_cell b"
  by (simp add: void_cell_def split: option.splits)

lemma arrive_overlapped:
  "overlapped_matrix (fst (arrive b h it nr nc))
     = (if parks h (cell (matrix b) nr nc)
        then put (overlapped_matrix b) nr nc (Some (cell (matrix b) nr nc))
        else overlapped_matrix b)"
  by (simp add: arrive_def Let_def)

lemma arrive_size [simp]:
  "height (fst (arrive b h it nr nc)) = height b"
  "width (fst (arrive b h it nr nc)) = width b"
  "inside (fst (arrive b h it nr nc)) r' c' = inside b r' c'"
  by (simp_all add: height_def width_def inside_def)

lemma arrive_wf: "wf_board b \<Longrightarrow> wf_board (fst (arrive b h it nr nc))"
  by (simp add: wf_board_def rect_put arrive_overlapped)

lemma arrive_cell:
  assumes "wf_board b" "inside b nr nc" "inside b r' c'"
  shows "cell (overlapped_matrix (fst (arrive b h it nr nc))) r' c'
           = (if r' = nr \<and> c' = nc \<and> parks h (cell (matrix b) nr nc)
              then Some (cell (matrix b) nr nc) else cell (overlapped_matrix b) r' c')"
  using assms by (simp add: arrive_overlapped cell_put_overlapped)

lemma arrive_heap [simp]:
  "next_oid (snd (arrive b h it nr nc)) = next_oid h"
  "core (objs (snd (arrive b h it nr nc)) i) = core (objs h i)"
  "pos (objs (snd (arrive b h it nr nc)) i) = pos (objs h i)"
  "inventory (objs (snd (arrive b h it nr nc)) i) = inventory (objs h i)"
  by (simp_all add: arrive_def Let_def)

lemma move_onto_overlappable:
  assumes "wf_board b" "is_Movable (cls (objs h it))" "can_move (objs h it)"
    and "pos (objs h it) = Some (r, c)" "offset direction stp = Some (dr, dc)"
    and "inside b (r + dr) (c + dc)"
    and "overlappable (objs h (cell (matrix b) (r + dr) (c + dc)))"
  shows "move uuid b h it direction stp =
     (case leave_source (fst (arrive b h it (r + dr) (c + dc)))
             (snd (arrive b h it (r + dr) (c + dc))) it (r + dr) (c + dc) of
        Inl e \<Rightarrow> Inl e
      | Inr (b3, h3) \<Rightarrow> place_item b3 h3 it (r + dr) (c + dc))"
proof -
  let ?d = "cell (matrix b) (r + dr) (c + dc)"
  let ?h1 = "if may_activate (objs h it) (objs h ?d) then activate ?d h else h"
  note g = get2_matrix [OF assms(1,6)]
  from assms(7) have ov: "overlappable (objs ?h1 ?d)" by simp
  with g have p: "pickup uuid b ?h1 it (r + dr) (c + dc) = Inr (b, ?h1)"
    by (simp add: pickup_skipped)
  from assms(6) have ins: "0 \<le> r + dr \<and> 0 \<le> c + dc \<and> r + dr < height b \<and> c + dc < width b"
    by (simp add: inside_def)
  have a: "arrive b h it (r + dr) (c + dc)
      = (b\<lparr>overlapped_matrix :=
              (if parks ?h1 ?d then put (overlapped_matrix b) (r + dr) (c + dc) (Some ?d)
               else overlapped_matrix b)\<rparr>, adopt_bg it ?d ?h1)"
    by (simp add: arrive_def Let_def)
  show ?thesis
    unfolding move_def move_simple_def settle_def a
    using assms(2-5) ins g p ov
    by (simp add: Let_def set2_overlapped [OF assms(1,6)])
qed

lemma leave_source_void:
  assumes "wf_board b" "pos (objs h it) = Some (r, c)" "inside b r c"
    and "to_restore h (cell (overlapped_matrix b) r c) nr nc = None"
  shows "leave_source b h it nr nc = Inr (placed b (with_void b h) (next_oid h) r c)"
  using assms
  by (simp add: leave_source_def get2_overlapped generate_void_cell_eq place_item_inside)

lemma leave_source_restore:
  assumes "wf_board b" "pos (objs h it) = Some (r, c)" "inside b r c"
    and "to_restore h (cell (overlapped_matrix b) r c) nr nc = Some ov"
    and "pos (objs h ov) = Some (r', c')" "inside b r' c'" "ov \<noteq> it"
  shows "leave_source b h it nr nc
     = Inr ((fst (placed b h ov r' c'))
              \<lparr>overlapped_matrix := put (overlapped_matrix (fst (placed b h ov r' c'))) r c None\<rparr>,
            snd (placed b h ov r' c'))"
proof -
  have wf1: "wf_board (fst (placed b h ov r' c'))" using assms(1) by (rule placed_wf)
  have in1: "inside (fst (placed b h ov r' c')) r c" using assms(3) by simp
  have p: "pos (objs (snd (placed b h ov r' c')) it) = Some (r, c)"
    using assms(2,7) by simp
  show ?thesis
    using assms(1-6)
    by (simp add: leave_source_def get2_overlapped place_item_inside case_prod_unfold p
        set2_overlapped [OF wf1 in1] del: placed_heap)
qed

lemma to_restore_cong:
  assumes "\<And>i. core (objs h' i) = core (objs h i)" "\<And>i. pos (objs h' i) = pos (objs h i)"
  shows "to_restore h' x nr nc = to_restore h x nr nc"
proof (cases x)
  case None
  then show ?thesis by (simp add: to_restore_def)
next
  case (Some ov)
  from assms(1) [of ov] have "cls (objs h' ov) = cls (objs h ov)"
    "restorable (objs h' ov) = restorable (objs h ov)" by (auto dest: core_fields)
  with Some assms(2) [of ov] show ?thesis by (simp add: to_restore_def)
qed

lemma to_restore_arrive [simp]:
  "to_restore (snd (arrive b h it r c)) x nr nc = to_restore h x nr nc"
  by (rule to_restore_cong) simp_all

text \<open>
  The state after the departure cell received a new Void, and after it received the
  overlapped item back.
\<close>

lemma move_leaving_void:
  assumes "wf_board b" "is_Movable (cls (objs h it))" "can_move (objs h it)"
    and "pos (objs h it) = Some (r, c)" "offset direction stp = Some (dr, dc)"
    and "inside b r c" "inside b (r + dr) (c + dc)"
    and "overlappable (objs h (cell (matrix b) (r + dr) (c + dc)))"
    and "to_restore h (cell (overlapped_matrix (fst (arrive b h it (r + dr) (c + dc)))) r c)
           (r + dr) (c + dc) = None"
  shows "move uuid b h it direction stp =
     Inr (placed
            (fst (placed (fst (arrive b h it (r + dr) (c + dc)))
                    (with_void b (snd (arrive b h it (r + dr) (c + dc)))) (next_oid h) r c))
            (snd (placed (fst (arrive b h it (r + dr) (c + dc)))
                    (with_void b (snd (arrive b h it (r + dr) (c + dc)))) (next_oid h) r c))
            it (r + dr) (c + dc))"
proof -
  let ?ba = "fst (arrive b h it (r + dr) (c + dc))"
  let ?ha = "snd (arrive b h it (r + dr) (c + dc))"
  have wfa: "wf_board ?ba" using assms(1) by (rule arrive_wf)
  have wv: "with_void ?ba ?ha = with_void b ?ha"
    by (simp add: with_void_def generate_void_cell_def)
  have "leave_source ?ba ?ha it (r + dr) (c + dc)
      = Inr (placed ?ba (with_void ?ba ?ha) (next_oid ?ha) r c)"
    using wfa assms(4,6,9) by (intro leave_source_void) simp_all
  then have ls: "leave_source ?ba ?ha it (r + dr) (c + dc)
      = Inr (placed ?ba (with_void b ?ha) (next_oid h) r c)"
    by (simp add: wv)
  have wf3: "wf_board (fst (placed ?ba (with_void b ?ha) (next_oid h) r c))"
    using wfa by (rule placed_wf)
  have in3: "inside (fst (placed ?ba (with_void b ?ha) (next_oid h) r c)) (r + dr) (c + dc)"
    using assms(7) by simp
  show ?thesis
    unfolding move_onto_overlappable [OF assms(1-5,7,8)] ls
    by (simp add: case_prod_unfold place_item_inside [OF wf3 in3]
        del: placed_board placed_heap placed_size arrive_board arrive_heap arrive_size)
qed

lemma move_restoring:
  assumes "wf_board b" "is_Movable (cls (objs h it))" "can_move (objs h it)"
    and "pos (objs h it) = Some (r, c)" "offset direction stp = Some (dr, dc)"
    and "inside b r c" "inside b (r + dr) (c + dc)"
    and "overlappable (objs h (cell (matrix b) (r + dr) (c + dc)))"
    and "to_restore h (cell (overlapped_matrix (fst (arrive b h it (r + dr) (c + dc)))) r c)
           (r + dr) (c + dc) = Some ov"
    and "pos (objs h ov) = Some (r', c')" "inside b r' c'" "ov \<noteq> it"
  shows "move uuid b h it direction stp =
     Inr (placed
            ((fst (placed (fst (arrive b h it (r + dr) (c + dc)))
                     (snd (arrive b h it (r + dr) (c + dc))) ov r' c'))
               \<lparr>overlapped_matrix :=
                  put (overlapped_matrix
                        (fst (placed (fst (arrive b h it (r + dr) (c + dc)))
                                (snd (arrive b h it (r + dr) (c + dc))) ov r' c'))) r c None\<rparr>)
            (snd (placed (fst (arrive b h it (r + dr) (c + dc)))
                    (snd (arrive b h it (r + dr) (c + dc))) ov r' c'))
            it (r + dr) (c + dc))"
proof -
  let ?ba = "fst (arrive b h it (r + dr) (c + dc))"
  let ?ha = "snd (arrive b h it (r + dr) (c + dc))"
  let ?p = "placed ?ba ?ha ov r' c'"
  let ?b3 = "(fst ?p)\<lparr>overlapped_matrix := put (overlapped_matrix (fst ?p)) r c None\<rparr>"
  have wfa: "wf_board ?ba" using assms(1) by (rule arrive_wf)
  have ls: "leave_source ?ba ?ha it (r + dr) (c + dc) = Inr (?b3, snd ?p)"
    using wfa assms(4,6,9-12) by (intro leave_source_restore) simp_all
  have "wf_board (fst ?p)" using wfa by (rule placed_wf)
  then have wf3: "wf_board ?b3"
    by (simp add: wf_board_def rect_put height_def width_def del: arrive_board)
  have in3: "inside ?b3 (r + dr) (c + dc)"
    using assms(7) by (simp add: inside_def height_def width_def)
  show ?thesis
    unfolding move_onto_overlappable [OF assms(1-5,7,8)] ls
    by (simp add: place_item_inside [OF wf3 in3]
        del: placed_board placed_heap placed_size arrive_board arrive_heap arrive_size)
qed

section \<open>One step onto a parked item, one step off it\<close>

lemma step_onto_parked:
  assumes wf: "wf_board b" and mv: "is_Movable (cls (objs h it))" "can_move (objs h it)"
    and p: "pos (objs h it) = Some (r, c)" and off: "offset direction stp = Some (dr, dc)"
    and src: "inside b r c" and dst: "inside b (r + dr) (c + dc)"
    and ne: "(dr, dc) \<noteq> (0, 0)"
    and d: "keeps h (cell (matrix b) (r + dr) (c + dc))"
    and free: "cell (overlapped_matrix b) r c = None"
  shows "\<exists>b1 h1. move uuid b h it direction stp = Inr (b1, h1)
      \<and> wf_board b1 \<and> board_size b1 = board_size b
      \<and> cell (matrix b1) (r + dr) (c + dc) = it
      \<and> cell (overlapped_matrix b1) (r + dr) (c + dc) = Some (cell (matrix b) (r + dr) (c + dc))
      \<and> cell (matrix b1) r c = next_oid h
      \<and> cls (objs h1 (next_oid h)) = BoardItemVoid
      \<and> next_oid h1 = Suc (next_oid h)
      \<and> pos (objs h1 it) = Some (r + dr, c + dc)
      \<and> (\<forall>i. i \<noteq> next_oid h \<longrightarrow> core (objs h1 i) = core (objs h i))
      \<and> (\<forall>i. i \<noteq> it \<longrightarrow> i \<noteq> next_oid h \<longrightarrow> pos (objs h1 i) = pos (objs h i))
      \<and> (\<forall>r' c'. inside b r' c' \<longrightarrow> (r', c') \<noteq> (r, c) \<longrightarrow> (r', c') \<noteq> (r + dr, c + dc)
            \<longrightarrow> cell (matrix b1) r' c' = cell (matrix b) r' c')"
proof -
  let ?nr = "r + dr" and ?nc = "c + dc"
  let ?d = "cell (matrix b) ?nr ?nc"
  let ?ba = "fst (arrive b h it ?nr ?nc)" and ?ha = "snd (arrive b h it ?nr ?nc)"
  let ?p = "placed ?ba (with_void b ?ha) (next_oid h) r c"
  let ?f = "placed (fst ?p) (snd ?p) it ?nr ?nc"
  from ne have neq: "\<not> (r = ?nr \<and> c = ?nc)" "\<not> (?nr = r \<and> ?nc = c)" by auto
  from d have ov: "overlappable (objs h ?d)" and pk: "parks h ?d"
    by (auto simp: keeps_def parks_def)
  have wfa: "wf_board ?ba" by (intro arrive_wf wf)
  have wfp: "wf_board (fst ?p)" by (intro placed_wf wfa)
  have wff: "wf_board (fst ?f)" by (intro placed_wf wfp)
  have ia: "inside ?ba x y = inside b x y" for x y by simp
  have ip: "inside (fst ?p) x y = inside b x y" for x y by simp
  have oa: "cell (overlapped_matrix ?ba) r c = None"
    using free neq by (auto simp: arrive_cell [OF wf dst src])
  then have tr: "to_restore h (cell (overlapped_matrix ?ba) r c) ?nr ?nc = None"
    by (simp add: to_restore_def)
  have mv1: "move uuid b h it direction stp = Inr ?f"
    by (rule move_leaving_void [OF wf mv p off src dst ov tr])
  have pm: "cell (matrix (fst ?p)) x y = (if x = r \<and> y = c then next_oid h else cell (matrix b) x y)"
    if "inside b x y" for x y
    using placed_cell(1) [OF wfa, of r c x y "with_void b ?ha" "next_oid h"] src that by simp
  have fm: "cell (matrix (fst ?f)) x y
      = (if x = ?nr \<and> y = ?nc then it else cell (matrix (fst ?p)) x y)"
    if "inside b x y" for x y
    using placed_cell(1) [OF wfp, of ?nr ?nc x y "snd ?p" it] dst that by simp
  have c1: "cell (matrix (fst ?f)) ?nr ?nc = it" using fm [OF dst] by simp
  have c2: "cell (matrix (fst ?f)) r c = next_oid h"
    using fm [OF src] pm [OF src] neq by auto
  have c3: "cell (matrix (fst ?f)) r' c' = cell (matrix b) r' c'"
    if "inside b r' c'" "(r', c') \<noteq> (r, c)" "(r', c') \<noteq> (?nr, ?nc)" for r' c'
    using fm [OF that(1)] pm [OF that(1)] that(2,3) by auto
  have po: "cell (overlapped_matrix (fst ?p)) ?nr ?nc = Some ?d"
    using placed_cell(2) [OF wfa, of r c ?nr ?nc "with_void b ?ha" "next_oid h"] src dst neq
      arrive_cell [OF wf dst dst, of h it] pk by auto
  have c4: "cell (overlapped_matrix (fst ?f)) ?nr ?nc = Some ?d"
    using placed_cell(2) [OF wfp, of ?nr ?nc ?nr ?nc "snd ?p" it] dst po pm [OF dst] neq
    by (auto split: if_splits)
  have h1: "core (objs (snd ?f) i) = core (objs h i)" if "i \<noteq> next_oid h" for i
    using that by simp
  have h2: "core (objs (snd ?f) (next_oid h))
      = core (void_cell b)" by simp
  have "cls (objs (snd ?f) (next_oid h))
      = cls (void_cell b)"
    using core_fields [OF h2] by simp
  then have h3: "cls (objs (snd ?f) (next_oid h)) = BoardItemVoid" by simp
  have h4: "pos (objs (snd ?f) i) = pos (objs h i)" if "i \<noteq> it" "i \<noteq> next_oid h" for i
    using that by simp
  have h5: "pos (objs (snd ?f) it) = Some (?nr, ?nc)" "next_oid (snd ?f) = Suc (next_oid h)"
    "board_size (fst ?f) = board_size b" by simp_all
  from mv1 wff c1 c2 c3 c4 h1 h3 h4 h5 show ?thesis
    by (intro exI [of _ "fst ?f"] exI [of _ "snd ?f"]) simp
qed

lemma step_off_overlapped:
  assumes wf: "wf_board b" and mv: "is_Movable (cls (objs h it))" "can_move (objs h it)"
    and p: "pos (objs h it) = Some (r, c)" and off: "offset direction stp = Some (dr, dc)"
    and src: "inside b r c" and dst: "inside b (r + dr) (c + dc)"
    and ne: "(dr, dc) \<noteq> (0, 0)"
    and d: "overlappable (objs h (cell (matrix b) (r + dr) (c + dc)))"
    and ov: "cell (overlapped_matrix b) r c = Some ov"
      "is_Immovable (cls (objs h ov))" "restorable (objs h ov)" "pos (objs h ov) = Some (r, c)"
  shows "\<exists>b2 h2. move uuid b h it direction stp = Inr (b2, h2)
      \<and> wf_board b2 \<and> board_size b2 = board_size b
      \<and> cell (matrix b2) r c = ov
      \<and> cell (overlapped_matrix b2) r c = None
      \<and> cell (matrix b2) (r + dr) (c + dc) = it
      \<and> next_oid h2 = next_oid h
      \<and> pos (objs h2 it) = Some (r + dr, c + dc)
      \<and> (\<forall>i. core (objs h2 i) = core (objs h i))"
proof -
  let ?nr = "r + dr" and ?nc = "c + dc"
  let ?ba = "fst (arrive b h it ?nr ?nc)" and ?ha = "snd (arrive b h it ?nr ?nc)"
  let ?p = "placed ?ba ?ha ov r c"
  let ?b3 = "(fst ?p)\<lparr>overlapped_matrix := put (overlapped_matrix (fst ?p)) r c None\<rparr>"
  let ?f = "placed ?b3 (snd ?p) it ?nr ?nc"
  from ne have neq: "\<not> (r = ?nr \<and> c = ?nc)" "\<not> (?nr = r \<and> ?nc = c)" by auto
  from mv(1) ov(2) have oi: "ov \<noteq> it" by (cases "cls (objs h it)") auto
  have wfa: "wf_board ?ba" by (intro arrive_wf wf)
  have wfp: "wf_board (fst ?p)" by (intro placed_wf wfa)
  then have wf3: "wf_board ?b3"
    by (simp add: wf_board_def rect_put height_def width_def del: arrive_board)
  have wff: "wf_board (fst ?f)" by (intro placed_wf wf3)
  have i3: "inside ?b3 x y = inside b x y" for x y
    by (simp add: inside_def height_def width_def)
  have oa: "cell (overlapped_matrix ?ba) r c = Some ov"
    using ov(1) neq by (auto simp: arrive_cell [OF wf dst src])
  have tr: "to_restore h (cell (overlapped_matrix ?ba) r c) ?nr ?nc = Some ov"
    unfolding oa using ov(2-4) neq by (auto simp: to_restore_def)
  have mv1: "move uuid b h it direction stp = Inr ?f"
    by (rule move_restoring [OF wf mv p off src dst d tr ov(4) src oi])
  have m3: "matrix ?b3 = matrix (fst ?p)" by simp
  have pm: "cell (matrix (fst ?p)) x y = (if x = r \<and> y = c then ov else cell (matrix b) x y)"
    if "inside b x y" for x y
    using placed_cell(1) [OF wfa, of r c x y ?ha ov] src that by simp
  have fm: "cell (matrix (fst ?f)) x y
      = (if x = ?nr \<and> y = ?nc then it else cell (matrix (fst ?p)) x y)"
    if "inside b x y" for x y
    using placed_cell(1) [OF wf3, of ?nr ?nc x y "snd ?p" it] dst that by (simp add: i3)
  have c1: "cell (matrix (fst ?f)) ?nr ?nc = it" using fm [OF dst] by simp
  have c2: "cell (matrix (fst ?f)) r c = ov" using fm [OF src] pm [OF src] neq by auto
  have o3: "cell (overlapped_matrix ?b3) r c = None"
    using cell_put_overlapped [OF wfp, of r c r c None] src by simp
  have c3: "cell (overlapped_matrix (fst ?f)) r c = None"
    using placed_cell(2) [OF wf3, of ?nr ?nc r c "snd ?p" it] dst src o3 neq by (auto simp: i3)
  have h5: "pos (objs (snd ?f) it) = Some (?nr, ?nc)" "next_oid (snd ?f) = next_oid h"
    "board_size (fst ?f) = board_size b" "\<And>i. core (objs (snd ?f) i) = core (objs h i)"
    by simp_all
  from mv1 wff c1 c2 c3 h5 show ?thesis
    by (intro exI [of _ "fst ?f"] exI [of _ "snd ?f"]) simp
qed



lemma inside_cong: "board_size b' = board_size b \<Longrightarrow> inside b' r c = inside b r c"
  by (simp add: inside_def height_def width_def)

section \<open>Overlap and restoration\<close>


lemma door_heap_facts:
  "is_Movable (cls (objs door_heap 11))" "can_move (objs door_heap 11)"
  "pos (objs door_heap 11) = Some (2, 1)" "keeps door_heap 12"
  "pos (objs door_heap 12) = Some (2, 2)" "next_oid door_heap = 25"
  "overlappable (objs door_heap 13)" "cls (objs door_heap 13) = BoardItemVoid"
  "cls (objs door_heap 12) = Door"
  by (simp_all add: door_heap_def heap_with_def player_at_def door_at_def new_item_def
      keeps_def new_void_def)

lemma grid5_cells:
  "cell grid5 2 1 = 11" "cell grid5 2 2 = 12" "cell grid5 2 3 = 13"
  "cell grid5 0 0 = 0" "cell grid5 0 1 = 1" "cell no_overlap5 2 1 = None"
  by (simp_all add: cell_def grid5_def no_overlap5_def)


lemma doors_facts:
  "wf_board doors_board" "inside doors_board 2 2" "inside doors_board (2 + 0) (2 + 1)"
  "cell (matrix doors_board) (2 + 0) (2 + 1) = 13"
  "cell (overlapped_matrix doors_board) 2 2 = Some 25"
  "is_Movable (cls (objs doors_heap 12))" "can_move (objs doors_heap 12)"
  "pos (objs doors_heap 12) = Some (2, 2)"
  "keeps doors_heap 13" "overlappable (objs doors_heap 13)"
  "is_Immovable (cls (objs doors_heap 25))" "restorable (objs doors_heap 25)"
  "pos (objs doors_heap 25) = Some (2, 2)" "cls (objs doors_heap 25) = Door"
  by (simp_all add: doors_board_def board5_def board_of_def wf_board_def rect_def inside_def
      height_def width_def grid5_def cell_def doors_heap_def heap_with_def player_at_def
      door_at_def new_item_def keeps_def)


section \<open>The end of a move, and clear_cell\<close>

lemma land_board [simp]:
  "matrix (fst (land b h it nr nc)) = matrix b"
  "board_size (fst (land b h it nr nc)) = board_size b"
  "movables (fst (land b h it nr nc)) = movables b"
  "immovables (fst (land b h it nr nc)) = immovables b"
  "ui_board_void_cell (fst (land b h it nr nc)) = ui_board_void_cell b"
  "ui_board_void_cell_sprixel (fst (land b h it nr nc)) = ui_board_void_cell_sprixel b"
  by (simp_all add: land_def Let_def)

lemma void_cell_land [simp]: "void_cell (fst (land b h it nr nc)) = void_cell b"
  by (simp add: void_cell_def split: option.splits)

lemma land_overlapped:
  "overlapped_matrix (fst (land b h it nr nc))
     = (if parks h (cell (matrix b) nr nc)
        then put (overlapped_matrix b) nr nc (Some (cell (matrix b) nr nc))
        else overlapped_matrix b)"
  by (simp add: land_def Let_def)

lemma land_size [simp]:
  "height (fst (land b h it nr nc)) = height b"
  "width (fst (land b h it nr nc)) = width b"
  "inside (fst (land b h it nr nc)) r' c' = inside b r' c'"
  by (simp_all add: height_def width_def inside_def)

lemma land_wf: "wf_board b \<Longrightarrow> wf_board (fst (land b h it nr nc))"
  by (simp add: wf_board_def rect_put land_overlapped)

lemma land_cell:
  assumes "wf_board b" "inside b nr nc" "inside b r' c'"
  shows "cell (overlapped_matrix (fst (land b h it nr nc))) r' c'
           = (if r' = nr \<and> c' = nc \<and> parks h (cell (matrix b) nr nc)
              then Some (cell (matrix b) nr nc) else cell (overlapped_matrix b) r' c')"
  using assms by (simp add: land_overlapped cell_put_overlapped)

lemma land_heap [simp]:
  "next_oid (snd (land b h it nr nc)) = next_oid h"
  "core (objs (snd (land b h it nr nc)) i) = core (objs h i)"
  "pos (objs (snd (land b h it nr nc)) i) = pos (objs h i)"
  "inventory (objs (snd (land b h it nr nc)) i) = inventory (objs h i)"
  by (simp_all add: land_def Let_def)

lemma to_restore_land [simp]:
  "to_restore (snd (land b h it r c)) x nr nc = to_restore h x nr nc"
  by (rule to_restore_cong) simp_all

lemma settle_overlappable:
  assumes "wf_board b" "inside b nr nc" "overlappable (objs h (cell (matrix b) nr nc))"
  shows "settle b h it nr nc =
     (case leave_source (fst (land b h it nr nc)) (snd (land b h it nr nc)) it nr nc of
        Inl e \<Rightarrow> Inl e
      | Inr (b3, h3) \<Rightarrow> place_item b3 h3 it nr nc)"
  using assms
  by (simp add: settle_def land_def Let_def get2_matrix set2_overlapped)

lemma settle_leaving_void:
  assumes "wf_board b" "pos (objs h it) = Some (r, c)" "inside b r c" "inside b nr nc"
    and "overlappable (objs h (cell (matrix b) nr nc))"
    and "to_restore h (cell (overlapped_matrix (fst (land b h it nr nc))) r c) nr nc = None"
  shows "settle b h it nr nc =
     Inr (placed
            (fst (placed (fst (land b h it nr nc))
                    (with_void b (snd (land b h it nr nc))) (next_oid h) r c))
            (snd (placed (fst (land b h it nr nc))
                    (with_void b (snd (land b h it nr nc))) (next_oid h) r c))
            it nr nc)"
proof -
  let ?ba = "fst (land b h it nr nc)"
  let ?ha = "snd (land b h it nr nc)"
  have wfa: "wf_board ?ba" using assms(1) by (rule land_wf)
  have wv: "with_void ?ba ?ha = with_void b ?ha"
    by (simp add: with_void_def generate_void_cell_def)
  have "leave_source ?ba ?ha it nr nc
      = Inr (placed ?ba (with_void ?ba ?ha) (next_oid ?ha) r c)"
    using wfa assms(2,3,6) by (intro leave_source_void) simp_all
  then have ls: "leave_source ?ba ?ha it nr nc
      = Inr (placed ?ba (with_void b ?ha) (next_oid h) r c)"
    by (simp add: wv)
  have wf3: "wf_board (fst (placed ?ba (with_void b ?ha) (next_oid h) r c))"
    using wfa by (rule placed_wf)
  have in3: "inside (fst (placed ?ba (with_void b ?ha) (next_oid h) r c)) nr nc"
    using assms(4) by simp
  show ?thesis
    unfolding settle_overlappable [OF assms(1,4,5)] ls
    by (simp add: case_prod_unfold place_item_inside [OF wf3 in3]
        del: placed_board placed_heap placed_size land_board land_heap land_size)
qed

lemma settle_restoring:
  assumes "wf_board b" "pos (objs h it) = Some (r, c)" "inside b r c" "inside b nr nc"
    and "overlappable (objs h (cell (matrix b) nr nc))"
    and "to_restore h (cell (overlapped_matrix (fst (land b h it nr nc))) r c) nr nc = Some ov"
    and "pos (objs h ov) = Some (r', c')" "inside b r' c'" "ov \<noteq> it"
  shows "settle b h it nr nc =
     Inr (placed
            ((fst (placed (fst (land b h it nr nc)) (snd (land b h it nr nc)) ov r' c'))
               \<lparr>overlapped_matrix :=
                  put (overlapped_matrix
                        (fst (placed (fst (land b h it nr nc))
                                (snd (land b h it nr nc)) ov r' c'))) r c None\<rparr>)
            (snd (placed (fst (land b h it nr nc)) (snd (land b h it nr nc)) ov r' c'))
            it nr nc)"
proof -
  let ?ba = "fst (land b h it nr nc)"
  let ?ha = "snd (land b h it nr nc)"
  let ?p = "placed ?ba ?ha ov r' c'"
  let ?b3 = "(fst ?p)\<lparr>overlapped_matrix := put (overlapped_matrix (fst ?p)) r c None\<rparr>"
  have wfa: "wf_board ?ba" using assms(1) by (rule land_wf)
  have ls: "leave_source ?ba ?ha it nr nc = Inr (?b3, snd ?p)"
    using wfa assms(2,3,6-9) by (intro leave_source_restore) simp_all
  have "wf_board (fst ?p)" using wfa by (rule placed_wf)
  then have wf3: "wf_board ?b3"
    by (simp add: wf_board_def rect_put height_def width_def del: land_board)
  have in3: "inside ?b3 nr nc"
    using assms(4) by (simp add: inside_def height_def width_def)
  show ?thesis
    unfolding settle_overlappable [OF assms(1,4,5)] ls
    by (simp add: place_item_inside [OF wf3 in3]
        del: placed_board placed_heap placed_size land_board land_heap land_size)
qed

lemma unregister_fields [simp]:
  "matrix (unregister x b) = matrix b"
  "overlapped_matrix (unregister x b) = overlapped_matrix b"
  "board_size (unregister x b) = board_size b"
  "ui_board_void_cell (unregister x b) = ui_board_void_cell b"
  "ui_board_void_cell_sprixel (unregister x b) = ui_board_void_cell_sprixel b"
  by (simp_all add: unregister_def)

lemma void_cell_unregister [simp]: "void_cell (unregister x b) = void_cell b"
  by (simp add: void_cell_def split: option.splits)

lemma unregister_wf [simp]: "wf_board (unregister x b) = wf_board b"
  by (simp add: wf_board_def height_def width_def)

lemma unregister_inside [simp]: "inside (unregister x b) r c = inside b r c"
  by (simp add: inside_def height_def width_def)

lemma with_void_unregister [simp]: "with_void (unregister x b) h = with_void b h"
  by (simp add: with_void_def generate_void_cell_def)

lemma clear_cell_inside:
  assumes "wf_board b" "inside b r c"
  shows "clear_cell b h r c = Inr (cleared b h r c)"
proof -
  note g = get2_matrix [OF assms] and go = get2_overlapped [OF assms]
    and sm = set2_matrix [OF assms] and so = set2_overlapped [OF assms]
  show ?thesis
  proof (cases "cell (overlapped_matrix b) r c")
    case None
    then show ?thesis
      by (simp add: clear_cell_def cleared_def g go sm Let_def init_cell_def
          generate_void_cell_eq)
  next
    case (Some o_item)
    then show ?thesis
      by (simp add: clear_cell_def cleared_def g go sm so Let_def)
  qed
qed

lemma cleared_board [simp]:
  "board_size (fst (cleared b h r c)) = board_size b"
  "ui_board_void_cell (fst (cleared b h r c)) = ui_board_void_cell b"
  "ui_board_void_cell_sprixel (fst (cleared b h r c)) = ui_board_void_cell_sprixel b"
  by (simp_all add: cleared_def Let_def split: option.splits)

lemma void_cell_cleared [simp]: "void_cell (fst (cleared b h r c)) = void_cell b"
  by (simp add: void_cell_def split: option.splits)

lemma cleared_size [simp]:
  "height (fst (cleared b h r c)) = height b"
  "width (fst (cleared b h r c)) = width b"
  "inside (fst (cleared b h r c)) r' c' = inside b r' c'"
  by (simp_all add: height_def width_def inside_def)

lemma cleared_matrix:
  "matrix (fst (cleared b h r c))
     = put (matrix b) r c (case cell (overlapped_matrix b) r c of
                             Some o_item \<Rightarrow> o_item | None \<Rightarrow> next_oid h)"
  "overlapped_matrix (fst (cleared b h r c))
     = (case cell (overlapped_matrix b) r c of
          Some o_item \<Rightarrow> put (overlapped_matrix b) r c None | None \<Rightarrow> overlapped_matrix b)"
  by (simp_all add: cleared_def Let_def split: option.splits)

lemma cleared_wf: "wf_board b \<Longrightarrow> wf_board (fst (cleared b h r c))"
  by (simp add: wf_board_def cleared_matrix rect_put split: option.splits)

lemma cleared_heap:
  "snd (cleared b h r c)
     = (case cell (overlapped_matrix b) r c of Some o_item \<Rightarrow> h | None \<Rightarrow> with_void b h)"
  by (simp add: cleared_def Let_def split: option.splits)

section \<open>Pickup\<close>

lemma to_restore_Some:
  "to_restore h x nr nc = Some ov \<Longrightarrow>
   x = Some ov \<and> is_Immovable (cls (objs h ov)) \<and> restorable (objs h ov)
   \<and> pos (objs h ov) \<noteq> Some (nr, nc)"
  by (cases x) (auto simp: to_restore_def split: if_splits)

text \<open>
  Whatever the departure cell receives, a mover that finds an overlappable item at its
  destination ends on the destination; objects that existed before keep their fields.
\<close>

lemma settle_moves:
  assumes wf: "wf_board b" and p: "pos (objs h it) = Some (r, c)"
    and src: "inside b r c" and dst: "inside b nr nc" and ne: "\<not> (nr = r \<and> nc = c)"
    and ov: "overlappable (objs h (cell (matrix b) nr nc))"
    and mv: "is_Movable (cls (objs h it))"
    and slot: "\<And>x. cell (overlapped_matrix b) r c = Some x \<Longrightarrow> pos (objs h x) = Some (r, c)"
  shows "\<exists>b' h'. settle b h it nr nc = Inr (b', h')
      \<and> wf_board b' \<and> board_size b' = board_size b
      \<and> cell (matrix b') nr nc = it
      \<and> pos (objs h' it) = Some (nr, nc)
      \<and> (\<forall>i. i < next_oid h \<longrightarrow> core (objs h' i) = core (objs h i)
                \<and> inventory (objs h' i) = inventory (objs h i))"
proof -
  let ?ba = "fst (land b h it nr nc)" and ?ha = "snd (land b h it nr nc)"
  have wfa: "wf_board ?ba" by (intro land_wf wf)
  have oa: "cell (overlapped_matrix ?ba) r c = cell (overlapped_matrix b) r c"
    using ne by (auto simp: land_cell [OF wf dst src])
  show ?thesis
  proof (cases "to_restore h (cell (overlapped_matrix ?ba) r c) nr nc")
    case None
    let ?p = "placed ?ba (with_void b ?ha) (next_oid h) r c"
    let ?f = "placed (fst ?p) (snd ?p) it nr nc"
    have wfp: "wf_board (fst ?p)" by (intro placed_wf wfa)
    have s: "settle b h it nr nc = Inr ?f"
      by (rule settle_leaving_void [OF wf p src dst ov None])
    have wff: "wf_board (fst ?f)" by (intro placed_wf wfp)
    have c1: "cell (matrix (fst ?f)) nr nc = it"
      using placed_cell(1) [OF wfp, of nr nc nr nc "snd ?p" it] dst by simp
    have h1: "pos (objs (snd ?f) it) = Some (nr, nc)" "board_size (fst ?f) = board_size b"
      by simp_all
    have h2: "core (objs (snd ?f) i) = core (objs h i)
        \<and> inventory (objs (snd ?f) i) = inventory (objs h i)" if "i < next_oid h" for i
      using that by simp
    show ?thesis
      apply (rule exI [of _ "fst ?f"], rule exI [of _ "snd ?f"])
      using s wff c1 h1 h2 by simp
  next
    case (Some x)
    from to_restore_Some [OF Some] oa have x: "cell (overlapped_matrix b) r c = Some x"
      "is_Immovable (cls (objs h x))" by simp_all
    from slot [OF x(1)] have px: "pos (objs h x) = Some (r, c)" .
    from mv x(2) have xi: "x \<noteq> it" by (cases "cls (objs h it)") auto
    let ?p = "placed ?ba ?ha x r c"
    let ?b3 = "(fst ?p)\<lparr>overlapped_matrix := put (overlapped_matrix (fst ?p)) r c None\<rparr>"
    let ?f = "placed ?b3 (snd ?p) it nr nc"
    have s: "settle b h it nr nc = Inr ?f"
      by (rule settle_restoring [OF wf p src dst ov Some px src xi])
    have wfp: "wf_board (fst ?p)" by (intro placed_wf wfa)
    then have wf3: "wf_board ?b3"
      by (simp add: wf_board_def rect_put height_def width_def del: land_board)
    have wff: "wf_board (fst ?f)" by (intro placed_wf wf3)
    have i3: "inside ?b3 y z = inside b y z" for y z
      by (simp add: inside_def height_def width_def)
    have c1: "cell (matrix (fst ?f)) nr nc = it"
      using placed_cell(1) [OF wf3, of nr nc nr nc "snd ?p" it] dst by (simp add: i3)
    have h1: "pos (objs (snd ?f) it) = Some (nr, nc)" "board_size (fst ?f) = board_size b"
      by simp_all
    have h2: "core (objs (snd ?f) i) = core (objs h i)
        \<and> inventory (objs (snd ?f) i) = inventory (objs h i)" for i
      by simp
    show ?thesis
      apply (rule exI [of _ "fst ?f"], rule exI [of _ "snd ?f"])
      using s wff c1 h1 h2 by simp
  qed
qed

lemma picked_fields [simp]:
  "next_oid (picked uuid h it d iv n) = next_oid h"
  "core (objs (picked uuid h it d iv n) i) = core (objs h i)"
  "pos (objs (picked uuid h it d iv n) i) = pos (objs h i)"
  "inventory (objs (picked uuid h it d iv n) i)
     = (if i = it then Some (with_item uuid iv n d) else inventory (objs h i))"
  by (simp_all add: picked_def upd_objs core_def)

lemma pickup_adds:
  assumes "wf_board b" "inside b nr nc"
    and "inventory (objs h it) = Some iv" "is_Movable (cls (objs h it))"
    and "\<not> overlappable (objs h (cell (matrix b) nr nc))"
    and "pickable (objs h (cell (matrix b) nr nc))"
    and "name (objs h (cell (matrix b) nr nc)) = Some n"
    and "inventory_space (objs h (cell (matrix b) nr nc)) = Some s"
    and "inv_size h iv + s \<le> max_size iv"
  shows "pickup uuid b h it nr nc
         = Inr (cleared b (picked uuid h it (cell (matrix b) nr nc) iv n) nr nc)"
  using assms
  by (simp add: pickup_def get2_matrix add_item_cases [OF assms(6-8)] clear_cell_inside
      picked_def with_item_def key_for_def)

lemma inv_size_cong:
  assumes "\<And>k i. (k, i) \<in> set (items iv)
             \<Longrightarrow> inventory_space (objs h' i) = inventory_space (objs h i)"
  shows "inv_size h' iv = inv_size h iv"
proof -
  have "map (space_of h') (items iv) = map (space_of h) (items iv)"
    using assms by (auto simp: space_of_def)
  then show ?thesis unfolding inv_size_alt by (rule arg_cong)
qed

lemma inv_value_alt: "inv_value h iv = sum_list (map (value_of h) (items iv))"
  by (simp add: inv_value_def value_of_def)

lemma inv_value_cong:
  assumes "\<And>k i. (k, i) \<in> set (items iv) \<Longrightarrow> item_value (objs h' i) = item_value (objs h i)"
  shows "inv_value h' iv = inv_value h iv"
proof -
  have "map (value_of h') (items iv) = map (value_of h) (items iv)"
    using assms by (auto simp: value_of_def)
  then show ?thesis unfolding inv_value_alt by (rule arg_cong)
qed

lemma set_update_subset:
  "set (AList.update k v al) \<subseteq> insert (k, v) (set al)"
  by (induction al) auto

lemma with_item_items:
  "set (items (with_item uuid iv n d)) \<subseteq> insert (key_for uuid iv n, d) (set (items iv))"
  by (simp add: with_item_def set_update_subset)

lemma with_item_sums:
  assumes "key_for uuid iv n \<notin> set (items_name iv)"
  shows "inv_size h (with_item uuid iv n d) = inv_size h iv + space_of h (key_for uuid iv n, d)"
    and "inv_value h (with_item uuid iv n d) = inv_value h iv + value_of h (key_for uuid iv n, d)"
    and "map_of (items (with_item uuid iv n d)) (key_for uuid iv n) = Some d"
  using assms
  by (simp_all add: inv_size_alt inv_value_alt with_item_def items_name_def sum_update_fresh
      update_conv')

section \<open>Pickup during a move\<close>

lemma cleared_heap_old:
  "i < next_oid h \<Longrightarrow> objs (snd (cleared b h r c)) i = objs h i"
  "next_oid h \<le> next_oid (snd (cleared b h r c))"
  by (simp_all add: cleared_heap split: option.splits)

lemma cleared_cell:
  assumes "wf_board b" "inside b r c" "inside b r' c'"
  shows "cell (matrix (fst (cleared b h r c))) r' c'
           = (if r' = r \<and> c' = c
              then (case cell (overlapped_matrix b) r c of
                      Some o_item \<Rightarrow> o_item | None \<Rightarrow> next_oid h)
              else cell (matrix b) r' c')"
    and "cell (overlapped_matrix (fst (cleared b h r c))) r' c'
           = (if r' = r \<and> c' = c then None else cell (overlapped_matrix b) r' c')"
  using assms
  by (auto simp: cleared_matrix cell_put_matrix cell_put_overlapped split: option.splits)


lemma treasure_heap_facts:
  "is_Movable (cls (objs treasure_heap 0))" "can_move (objs treasure_heap 0)"
  "pos (objs treasure_heap 0) = Some (0, 0)"
  "\<not> overlappable (objs treasure_heap 1)" "pickable (objs treasure_heap 1)"
  "name (objs treasure_heap 1) = Some ''treasure''"
  "inventory (objs treasure_heap 0) = Some \<lparr>max_size = 10, items = []\<rparr>"
  "inventory_space (objs treasure_heap 1) = Some 2"
  "item_value (objs treasure_heap 1) = Some 50"
  "next_oid treasure_heap = 25"
  "\<not> may_activate (objs treasure_heap 0) (objs treasure_heap 1)"
  by (simp_all add: treasure_heap_def heap_with_def player_at_def treasure_at_def new_item_def
      may_activate_def)



section \<open>The two sets of a board\<close>

lemma py_index_nth: "py_index xs i = Some k \<Longrightarrow> xs ! k \<in> set xs"
  by (simp add: py_index_bound)

lemma get2_stored: "get2 m r c = Some x \<Longrightarrow> x \<in> set (concat m)"
proof -
  assume a: "get2 m r c = Some x"
  then obtain i j where i: "py_index m r = Some i" and j: "py_index (m ! i) c = Some j"
    and x: "x = m ! i ! j"
    by (auto simp: get2_def split: option.splits)
  from i have "m ! i \<in> set m" by (rule py_index_nth)
  moreover from j have "m ! i ! j \<in> set (m ! i)" by (rule py_index_nth)
  ultimately show ?thesis using x by auto
qed

lemma concat_update_subset:
  "i < length m \<Longrightarrow> set (concat (m[i := row])) \<subseteq> set row \<union> set (concat m)"
proof (induction m arbitrary: i)
  case Nil
  then show ?case by simp
next
  case (Cons a m)
  show ?case
  proof (cases i)
    case 0
    then show ?thesis by auto
  next
    case (Suc k)
    with Cons.prems have "k < length m" by simp
    from Cons.IH [OF this] Suc show ?thesis by auto
  qed
qed

lemma set2_stored:
  assumes "set2 m r c v = Some m'"
  shows "set (concat m') \<subseteq> insert v (set (concat m))"
proof -
  from assms obtain i j where i: "py_index m r = Some i" and j: "py_index (m ! i) c = Some j"
    and m': "m' = m[i := (m ! i)[j := v]]"
    by (auto simp: set2_def split: option.splits)
  from i have il: "i < length m" by (rule py_index_bound)
  then have "m ! i \<in> set m" by simp
  then have "set (m ! i) \<subseteq> set (concat m)" by auto
  moreover have "set ((m ! i)[j := v]) \<subseteq> insert v (set (m ! i))"
    by (rule set_update_subset_insert)
  ultimately show ?thesis
    using concat_update_subset [OF il, of "(m ! i)[j := v]"] m' by blast
qed

lemma count_update:
  "j < length xs \<Longrightarrow> xs ! j = x \<Longrightarrow> v \<noteq> x \<Longrightarrow>
   Suc (count_list (xs[j := v]) x) = count_list xs x"
proof (induction xs arbitrary: j)
  case Nil
  then show ?case by simp
next
  case (Cons a xs)
  then show ?case by (cases j) auto
qed

lemma count_concat_update:
  "i < length m \<Longrightarrow> Suc (count_list row x) = count_list (m ! i) x \<Longrightarrow>
   Suc (count_list (concat (m[i := row])) x) = count_list (concat m) x"
proof (induction m arbitrary: i)
  case Nil
  then show ?case by simp
next
  case (Cons a m)
  then show ?case by (cases i) auto
qed

lemma set2_removes:
  assumes "get2 m r c = Some x" "set2 m r c v = Some m'" "count_list (concat m) x \<le> 1"
    "v \<noteq> x"
  shows "x \<notin> set (concat m')"
proof -
  from assms(1) obtain i j where i: "py_index m r = Some i"
    and j: "py_index (m ! i) c = Some j" and x: "m ! i ! j = x"
    by (auto simp: get2_def split: option.splits)
  with assms(2) have m': "m' = m[i := (m ! i)[j := v]]" by (simp add: set2_def)
  from i have il: "i < length m" by (rule py_index_bound)
  from j have jl: "j < length (m ! i)" by (rule py_index_bound)
  from count_concat_update [OF il count_update [OF jl x assms(4)]] m'
  have "Suc (count_list (concat m') x) = count_list (concat m) x" by simp
  with assms(3) have "count_list (concat m') x = 0" by simp
  then show ?thesis by (simp add: count_list_0_iff)
qed

lemma single_upd:
  "single (upd i f h) j
     = (if j = i then (case parent (f (objs h i)) of
                         Some (ParentComplex p) \<Rightarrow> False | _ \<Rightarrow> True)
        else single h j)"
  by (simp add: single_def upd_objs)

lemma single_adopt_bg [simp]: "single (adopt_bg it e h) i = single h i"
  unfolding single_def by (subst adopt_bg_objs) simp

lemma cls_adopt_bg [simp]: "cls (objs (adopt_bg it e h) i) = cls (objs h i)"
  by (subst adopt_bg_objs) simp

lemma parent_adopt_bg [simp]: "parent (objs (adopt_bg it e h) i) = parent (objs h i)"
  by (subst adopt_bg_objs) simp

lemma register_item_single:
  assumes "case parent x of Some (ParentComplex p) \<Rightarrow> False | _ \<Rightarrow> True"
  shows "(is_Movable (cls x) \<longrightarrow> it \<in> movables (register_item it x b))
         \<and> (is_Immovable (cls x) \<longrightarrow> it \<in> immovables (register_item it x b))"
proof -
  have "\<not> (is_Movable (cls x) \<and> is_Immovable (cls x))" by (cases "cls x") simp_all
  with assms show ?thesis
    by (auto simp: register_item_def split: option.splits parent_ref.splits)
qed

lemma keeps_heap:
  assumes "registered b h" "sane b h" "next_oid h \<le> next_oid h'"
    and "\<And>i. i < next_oid h \<Longrightarrow> cls (objs h' i) = cls (objs h i)"
    and "\<And>i. i < next_oid h' \<Longrightarrow> single h' i"
  shows "registered b h' \<and> sane b h'"
proof -
  have "in_its_set b h' i" if "i \<in> stored b" for i
  proof -
    from that assms(2) have "i < next_oid h" by (simp add: sane_def)
    from assms(4) [OF this] assms(1) that show ?thesis
      by (simp add: registered_def in_its_set_def)
  qed
  then have "registered b h'" by (simp add: registered_def)
  moreover have "i < next_oid h'" if "i \<in> stored b \<union> parked b" for i
  proof -
    from that assms(2) have "i < next_oid h" unfolding sane_def by blast
    with assms(3) show ?thesis by simp
  qed
  with assms(5) have "sane b h'" unfolding sane_def by blast
  ultimately show ?thesis by simp
qed

lemma these_subset:
  "A \<subseteq> insert (Some d) B \<Longrightarrow> Option.these A \<subseteq> insert d (Option.these B)"
  by (auto simp: in_these_eq)

lemma keeps_overlapped:
  assumes "registered b h" "sane b h" "set (concat om) \<subseteq> insert (Some d) (set (concat (overlapped_matrix b)))"
    "d \<in> stored b"
  shows "registered (b\<lparr>overlapped_matrix := om\<rparr>) h \<and> sane (b\<lparr>overlapped_matrix := om\<rparr>) h"
proof -
  have p: "parked (b\<lparr>overlapped_matrix := om\<rparr>) \<subseteq> insert d (parked b)"
    using these_subset [OF assms(3)] by (simp add: parked_def)
  have s: "stored (b\<lparr>overlapped_matrix := om\<rparr>) = stored b" by (simp add: stored_def)
  have "registered (b\<lparr>overlapped_matrix := om\<rparr>) h"
    using assms(1) unfolding registered_def s by (simp add: in_its_set_def)
  moreover have "sane (b\<lparr>overlapped_matrix := om\<rparr>) h"
    using assms(2,4) p unfolding sane_def s by blast
  ultimately show ?thesis by simp
qed

lemma place_item_Inr:
  assumes "place_item b h it r c = Inr (b', h')"
  obtains e m om where "get2 (matrix b) r c = Some e" "set2 (matrix b) r c it = Some m"
    "h' = upd it (\<lambda>x. store_position r c (adopt_parent x))
            (if keeps h e then adopt_bg it e h else h)"
    "b' = register_item it (objs h' it) (b\<lparr>overlapped_matrix := om, matrix := m\<rparr>)"
    "if keeps h e then set2 (overlapped_matrix b) r c (Some e) = Some om
     else om = overlapped_matrix b"
proof -
  from assms have ub: "r < height b \<and> c < width b"
    by (simp add: place_item_def split: if_splits)
  with assms obtain e where e: "get2 (matrix b) r c = Some e"
    by (cases "get2 (matrix b) r c") (simp_all add: place_item_def)
  show thesis
  proof (cases "keeps h e")
    case True
    with assms ub e obtain om where om: "set2 (overlapped_matrix b) r c (Some e) = Some om"
      by (cases "set2 (overlapped_matrix b) r c (Some e)") (simp_all add: place_item_def)
    with assms ub e True obtain m where m: "set2 (matrix b) r c it = Some m"
      by (cases "set2 (matrix b) r c it") (simp_all add: place_item_def)
    from assms ub e True om m
    have "h' = upd it (\<lambda>x. store_position r c (adopt_parent x)) (adopt_bg it e h)"
      and "b' = register_item it (objs h' it) (b\<lparr>overlapped_matrix := om, matrix := m\<rparr>)"
      by (auto simp: place_item_def Let_def)
    with True e m om show thesis by (intro that [of e m om]) simp_all
  next
    case False
    with assms ub e obtain m where m: "set2 (matrix b) r c it = Some m"
      by (cases "set2 (matrix b) r c it") (simp_all add: place_item_def)
    from assms ub e False m
    have "h' = upd it (\<lambda>x. store_position r c (adopt_parent x)) h"
      and "b' = register_item it (objs h' it)
                  (b\<lparr>overlapped_matrix := overlapped_matrix b, matrix := m\<rparr>)"
      by (auto simp: place_item_def Let_def)
    with False e m show thesis by (intro that [of e m "overlapped_matrix b"]) simp_all
  qed
qed

lemma place_item_effect:
  assumes "place_item b h it r c = Inr (b', h')"
  shows "stored b' \<subseteq> insert it (stored b)" "parked b' \<subseteq> parked b \<union> stored b"
    "movables b \<subseteq> movables b'" "immovables b \<subseteq> immovables b'"
    "single h it \<Longrightarrow> in_its_set b' h' it"
    "next_oid h' = next_oid h" "cls (objs h' i) = cls (objs h i)" "single h' i = single h i"
proof -
  from assms obtain e m om where e: "get2 (matrix b) r c = Some e"
    and m: "set2 (matrix b) r c it = Some m"
    and h': "h' = upd it (\<lambda>x. store_position r c (adopt_parent x))
                    (if keeps h e then adopt_bg it e h else h)"
    and b': "b' = register_item it (objs h' it) (b\<lparr>overlapped_matrix := om, matrix := m\<rparr>)"
    and om: "if keeps h e then set2 (overlapped_matrix b) r c (Some e) = Some om
             else om = overlapped_matrix b"
    by (rule place_item_Inr)
  show "stored b' \<subseteq> insert it (stored b)"
    using set2_stored [OF m] by (simp add: b' stored_def)
  have "set (concat om) \<subseteq> insert (Some e) (set (concat (overlapped_matrix b)))"
    using om set2_stored [of "overlapped_matrix b" r c "Some e" om]
    by (auto split: if_splits)
  moreover have "e \<in> stored b" using get2_stored [OF e] by (simp add: stored_def)
  ultimately show "parked b' \<subseteq> parked b \<union> stored b"
    using these_subset [of "set (concat om)" e "set (concat (overlapped_matrix b))"]
    by (auto simp: b' parked_def simp del: set_concat)
  show "movables b \<subseteq> movables b'" "immovables b \<subseteq> immovables b'"
    by (auto simp: b' register_item_def split: option.splits parent_ref.splits)
  show "next_oid h' = next_oid h" by (simp add: h')
  show c: "cls (objs h' i) = cls (objs h i)" for i
    by (simp add: h' upd_objs store_position_def adopt_parent_def)
  have p: "parent (objs h' i)
      = (if i = it then (case parent (objs h it) of
                           None \<Rightarrow> Some ParentBoard | Some q \<Rightarrow> Some q)
         else parent (objs h i))" for i
    by (simp add: h' upd_objs store_position_def adopt_parent_def split: option.splits)
  show s: "single h' i = single h i" for i
    unfolding single_def p by (simp split: option.splits)
  show "in_its_set b' h' it" if "single h it"
  proof -
    from that s [of it] have "single h' it" by simp
    then have "case parent (objs h' it) of Some (ParentComplex p) \<Rightarrow> False | _ \<Rightarrow> True"
      by (simp add: single_def)
    from register_item_single [OF this] show ?thesis
      unfolding in_its_set_def b' by simp
  qed
qed

lemma place_item_keeps:
  assumes "place_item b h it r c = Inr (b', h')" "registered b h" "sane b h" "it < next_oid h"
  shows "registered b' h' \<and> sane b' h'"
proof -
  note e = place_item_effect [OF assms(1)]
  from assms(3,4) have "single h it" by (simp add: sane_def)
  then have it: "in_its_set b' h' it" by (rule e(5))
  have "in_its_set b' h' i" if "i \<in> stored b" for i
    using assms(2) that e(3,4) e(7) unfolding registered_def in_its_set_def by auto
  with it e(1) have "registered b' h'" unfolding registered_def by auto
  moreover have "sane b' h'"
    using assms(3,4) e(1,2,6,8) unfolding sane_def by auto
  ultimately show ?thesis by simp
qed

lemma in_its_set_cong:
  assumes "cls (objs h' i) = cls (objs h i)" "movables b \<subseteq> movables b'"
    "immovables b \<subseteq> immovables b'" "in_its_set b h i"
  shows "in_its_set b' h' i"
  using assms unfolding in_its_set_def by auto

lemma unregister_in_its_set:
  "i \<noteq> x \<Longrightarrow> in_its_set b h i \<Longrightarrow> in_its_set (unregister x b) h i"
  by (auto simp: in_its_set_def unregister_def)

lemma get2_parked: "get2 (overlapped_matrix b) r c = Some (Some x) \<Longrightarrow> x \<in> parked b"
  using get2_stored [of "overlapped_matrix b" r c "Some x"]
  by (simp add: parked_def in_these_eq del: set_concat)

lemma these_subset_None:
  "A \<subseteq> insert None B \<Longrightarrow> Option.these A \<subseteq> Option.these B"
  by (auto simp: in_these_eq)

lemma clear_cell_keeps:
  assumes c: "clear_cell b h r c = Inr (b', h')"
    and reg: "registered b h" and sane: "sane b h" and ok: "clear_ok b h r c"
  shows "registered b' h' \<and> sane b' h' \<and> next_oid h \<le> next_oid h'"
proof -
  from c obtain x where x: "get2 (matrix b) r c = Some x"
    by (cases "get2 (matrix b) r c") (simp_all add: clear_cell_def)
  from x have xs: "x \<in> stored b" unfolding stored_def by (rule get2_stored)
  with sane have xl: "x < next_oid h" by (simp add: sane_def)
  from ok x have cnt: "count_list (concat (matrix b)) x \<le> 1" by (simp add: clear_ok_def)
  from c x obtain ov where ov: "get2 (overlapped_matrix b) r c = Some ov"
    by (cases "get2 (overlapped_matrix b) r c") (simp_all add: clear_cell_def Let_def)
  have old: "in_its_set (unregister x b) h i" if "i \<in> stored b" "i \<noteq> x" for i
    using reg that by (simp add: registered_def unregister_in_its_set)
  show ?thesis
  proof (cases ov)
    case None
    from c x ov None obtain m where m: "set2 (matrix b) r c (next_oid h) = Some m"
      by (cases "set2 (matrix b) r c (next_oid h)")
         (simp_all add: clear_cell_def Let_def init_cell_def generate_void_cell_eq)
    with c x ov None have b': "b' = (unregister x b)\<lparr>matrix := m\<rparr>"
      and h': "h' = with_void b h"
      by (simp_all add: clear_cell_def Let_def init_cell_def generate_void_cell_eq
          with_void_unregister)
    from xl have ne: "next_oid h \<noteq> x" by simp
    from set2_stored [OF m] have sub: "stored b' \<subseteq> insert (next_oid h) (stored b)"
      by (simp add: b' stored_def)
    from set2_removes [OF x m cnt ne] have gone: "x \<notin> stored b'" by (simp add: b' stored_def)
    have "in_its_set b' h' i" if i: "i \<in> stored b'" for i
    proof (cases "i = next_oid h")
      case True
      then show ?thesis by (simp add: in_its_set_def h')
    next
      case False
      with i sub gone have "i \<in> stored b" "i \<noteq> x" by auto
      from old [OF this] False show ?thesis by (simp add: in_its_set_def b' h')
    qed
    then have 1: "registered b' h'" by (simp add: registered_def)
    have p: "parked b' = parked b" by (simp add: b' parked_def)
    have "i < next_oid h'" if "i \<in> stored b' \<union> parked b'" for i
      using that sub sane unfolding p sane_def h' by (auto simp: less_Suc_eq)
    moreover have "single h' i" if "i < next_oid h'" for i
      using that sane unfolding sane_def h' by (auto simp: single_def less_Suc_eq)
    ultimately have 2: "sane b' h'" unfolding sane_def by blast
    from 1 2 show ?thesis by (simp add: h')
  next
    case (Some o_item)
    from c x ov Some obtain m where m: "set2 (matrix b) r c o_item = Some m"
      by (cases "set2 (matrix b) r c o_item") (simp_all add: clear_cell_def Let_def)
    from c x ov Some m obtain om where om: "set2 (overlapped_matrix b) r c None = Some om"
      by (cases "set2 (overlapped_matrix b) r c None") (simp_all add: clear_cell_def Let_def)
    from c x ov Some m om
    have b': "b' = (unregister x b)\<lparr>matrix := m, overlapped_matrix := om\<rparr>" and h': "h' = h"
      by (simp_all add: clear_cell_def Let_def)
    from ok x ov Some have ne: "o_item \<noteq> x" and oin: "in_its_set b h o_item"
      by (simp_all add: clear_ok_def)
    from ov Some have op: "o_item \<in> parked b" by (simp add: get2_parked)
    from set2_stored [OF m] have sub: "stored b' \<subseteq> insert o_item (stored b)"
      by (simp add: b' stored_def)
    from set2_removes [OF x m cnt ne] have gone: "x \<notin> stored b'" by (simp add: b' stored_def)
    have "in_its_set b' h' i" if i: "i \<in> stored b'" for i
    proof (cases "i = o_item")
      case True
      with unregister_in_its_set [OF ne oin] show ?thesis by (simp add: in_its_set_def b' h')
    next
      case False
      with i sub gone have "i \<in> stored b" "i \<noteq> x" by auto
      from old [OF this] show ?thesis by (simp add: in_its_set_def b' h')
    qed
    then have 1: "registered b' h'" by (simp add: registered_def)
    have p: "parked b' \<subseteq> parked b"
      using these_subset_None [OF set2_stored [OF om]] by (simp add: b' parked_def)
    have "i < next_oid h'" if "i \<in> stored b' \<union> parked b'" for i
      using that sub p op sane unfolding sane_def h' by auto
    with sane have 2: "sane b' h'" unfolding sane_def h' by blast
    from 1 2 show ?thesis by (simp add: h')
  qed
qed

lemma add_item_frame:
  assumes "add_item uuid iv h d = Inr (iv1, h1)"
  shows "next_oid h1 = next_oid h" "cls (objs h1 i) = cls (objs h i)"
    "single h1 i = single h i"
  using assms
  by (auto simp: add_item_def upd_objs single_def split: if_splits option.splits)

lemma clear_ok_cong:
  assumes "\<And>i. cls (objs h' i) = cls (objs h i)"
  shows "clear_ok b h' r c = clear_ok b h r c"
  unfolding clear_ok_def in_its_set_def by (simp add: assms split: option.splits)

lemma keeps_heap_same:
  assumes "registered b h" "sane b h" "next_oid h' = next_oid h"
    and "\<And>i. cls (objs h' i) = cls (objs h i)" "\<And>i. single h' i = single h i"
  shows "registered b h' \<and> sane b h'"
proof (rule keeps_heap [OF assms(1,2)])
  show "next_oid h \<le> next_oid h'" by (simp add: assms(3))
  show "cls (objs h' i) = cls (objs h i)" for i by (rule assms(4))
  show "single h' i" if "i < next_oid h'" for i
    using that assms(2,3,5) by (simp add: sane_def)
qed

lemma pickup_keeps:
  assumes p: "pickup uuid b h it nr nc = Inr (b', h')"
    and reg: "registered b h" and sane: "sane b h"
    and ok: "\<And>x. get2 (matrix b) nr nc = Some x \<Longrightarrow> \<not> overlappable (objs h x) \<Longrightarrow>
               pickable (objs h x) \<Longrightarrow> inventory (objs h it) \<noteq> None \<Longrightarrow> clear_ok b h nr nc"
  shows "registered b' h' \<and> sane b' h' \<and> next_oid h \<le> next_oid h'"
proof -
  from p obtain d where d: "get2 (matrix b) nr nc = Some d"
    by (cases "get2 (matrix b) nr nc") (simp_all add: pickup_def)
  show ?thesis
  proof (cases "inventory (objs h it)")
    case None
    with p d reg sane show ?thesis by (simp add: pickup_def)
  next
    case (Some iv)
    show ?thesis
    proof (cases "\<not> overlappable (objs h d) \<and> pickable (objs h d) \<and> is_Movable (cls (objs h it))")
      case False
      with p d Some reg sane show ?thesis by (auto simp: pickup_def)
    next
      case True
      with p d Some obtain iv1 h1 where a: "add_item uuid iv h d = Inr (iv1, h1)"
        by (cases "add_item uuid iv h d") (auto simp: pickup_def)
      let ?h2 = "upd it (\<lambda>x. x\<lparr>inventory := Some iv1\<rparr>) h1"
      from p d Some True a have cc: "clear_cell b ?h2 nr nc = Inr (b', h')"
        by (simp add: pickup_def)
      note f = add_item_frame [OF a]
      have n2: "next_oid ?h2 = next_oid h" by (simp add: f(1))
      have c2: "cls (objs ?h2 i) = cls (objs h i)" for i by (simp add: upd_objs f(2))
      have s2: "single ?h2 i = single h i" for i
      proof -
        have "single ?h2 i = single h1 i" by (simp add: single_def upd_objs)
        with f(3) [of i] show ?thesis by simp
      qed
      from keeps_heap_same [OF reg sane n2 c2 s2]
      have j: "registered b ?h2" "sane b ?h2" by simp_all
      from ok [OF d] True Some have "clear_ok b h nr nc" by simp
      then have "clear_ok b ?h2 nr nc" using clear_ok_cong [of ?h2 h b nr nc] c2 by simp
      from clear_cell_keeps [OF cc j this] n2 show ?thesis by simp
    qed
  qed
qed

lemma keeps_slot:
  assumes "registered b h" "sane b h" "parked (b\<lparr>overlapped_matrix := om\<rparr>) \<subseteq> parked b \<union> stored b"
  shows "registered (b\<lparr>overlapped_matrix := om\<rparr>) h \<and> sane (b\<lparr>overlapped_matrix := om\<rparr>) h"
proof -
  have s: "stored (b\<lparr>overlapped_matrix := om\<rparr>) = stored b" by (simp add: stored_def)
  have "registered (b\<lparr>overlapped_matrix := om\<rparr>) h"
    using assms(1) unfolding registered_def s by (simp add: in_its_set_def)
  moreover have "sane (b\<lparr>overlapped_matrix := om\<rparr>) h"
    using assms(2,3) unfolding sane_def s by blast
  ultimately show ?thesis by simp
qed

lemma leave_source_keeps:
  assumes l: "leave_source b h it nr nc = Inr (b', h')"
    and reg: "registered b h" and sane: "sane b h"
  shows "registered b' h' \<and> sane b' h' \<and> next_oid h \<le> next_oid h'"
proof -
  from l obtain r c where p: "pos (objs h it) = Some (r, c)"
    by (cases "pos (objs h it)") (auto simp: leave_source_def)
  from l p obtain slot where slot: "get2 (overlapped_matrix b) r c = Some slot"
    by (cases "get2 (overlapped_matrix b) r c") (auto simp: leave_source_def)
  show ?thesis
  proof (cases "to_restore h slot nr nc")
    case None
    with l p slot have pl: "place_item b (with_void b h) (next_oid h) r c = Inr (b', h')"
      by (simp add: leave_source_def generate_void_cell_eq)
    have "registered b (with_void b h) \<and> sane b (with_void b h)"
    proof (rule keeps_heap [OF reg sane])
      show "next_oid h \<le> next_oid (with_void b h)" by simp
      show "cls (objs (with_void b h) i) = cls (objs h i)" if "i < next_oid h" for i
        using that by simp
      show "single (with_void b h) i" if "i < next_oid (with_void b h)" for i
        using that sane by (auto simp: sane_def single_def less_Suc_eq)
    qed
    then have j: "registered b (with_void b h)" "sane b (with_void b h)" by simp_all
    have "next_oid h < next_oid (with_void b h)" by simp
    from place_item_keeps [OF pl j this] place_item_effect(6) [OF pl] show ?thesis by simp
  next
    case (Some ov)
    then have sl: "slot = Some ov" by (simp add: to_restore_Some)
    with slot have "ov \<in> parked b" by (simp add: get2_parked)
    with sane have ol: "ov < next_oid h" by (simp add: sane_def)
    from l p slot Some obtain orow ocol where op: "pos (objs h ov) = Some (orow, ocol)"
      by (cases "pos (objs h ov)") (auto simp: leave_source_def)
    from l p slot Some op obtain b1 h1 where pl: "place_item b h ov orow ocol = Inr (b1, h1)"
      by (cases "place_item b h ov orow ocol") (auto simp: leave_source_def)
    from l p slot Some op pl obtain r1 c1 where p1: "pos (objs h1 it) = Some (r1, c1)"
      by (cases "pos (objs h1 it)") (auto simp: leave_source_def)
    from l p slot Some op pl p1 obtain om
      where om: "set2 (overlapped_matrix b1) r1 c1 None = Some om"
      by (cases "set2 (overlapped_matrix b1) r1 c1 None") (auto simp: leave_source_def)
    from l p slot Some op pl p1 om
    have r: "b' = b1\<lparr>overlapped_matrix := om\<rparr>" "h' = h1" by (simp_all add: leave_source_def)
    from place_item_keeps [OF pl reg sane ol]
    have j: "registered b1 h1" "sane b1 h1" by simp_all
    have "parked (b1\<lparr>overlapped_matrix := om\<rparr>) \<subseteq> parked b1 \<union> stored b1"
      using these_subset_None [OF set2_stored [OF om]] by (auto simp: parked_def)
    from keeps_slot [OF j this] place_item_effect(6) [OF pl] r show ?thesis by simp
  qed
qed

lemma settle_keeps:
  assumes s: "settle b h it nr nc = Inr (b', h')"
    and reg: "registered b h" and sane: "sane b h" and it: "it < next_oid h"
  shows "registered b' h' \<and> sane b' h'"
proof -
  from s obtain d where d: "get2 (matrix b) nr nc = Some d"
    by (cases "get2 (matrix b) nr nc") (simp_all add: settle_def)
  then have ds: "d \<in> stored b" unfolding stored_def by (rule get2_stored)
  show ?thesis
  proof (cases "overlappable (objs h d)")
    case False
    with s d reg sane show ?thesis by (simp add: settle_def)
  next
    case True
    let ?slot = "if parks h d then set2 (overlapped_matrix b) nr nc (Some d)
                 else Some (overlapped_matrix b)"
    from s d True obtain om where om: "?slot = Some om"
      by (cases ?slot) (simp_all add: settle_def)
    let ?b1 = "b\<lparr>overlapped_matrix := om\<rparr>" and ?h1 = "adopt_bg it d h"
    from s d True om obtain b3 h3 where l: "leave_source ?b1 ?h1 it nr nc = Inr (b3, h3)"
      by (cases "leave_source ?b1 ?h1 it nr nc") (auto simp: settle_def)
    with s d True om have pl: "place_item b3 h3 it nr nc = Inr (b', h')"
      by (simp add: settle_def)
    have "set (concat om) \<subseteq> insert (Some d) (set (concat (overlapped_matrix b)))"
      using om set2_stored [of "overlapped_matrix b" nr nc "Some d" om]
      by (auto split: if_splits)
    from these_subset [OF this] ds
    have "parked ?b1 \<subseteq> parked b \<union> stored b" by (auto simp: parked_def)
    from keeps_slot [OF reg sane this] have j1: "registered ?b1 h" "sane ?b1 h" by simp_all
    have "registered ?b1 ?h1 \<and> sane ?b1 ?h1"
      by (rule keeps_heap_same [OF j1]) simp_all
    then have j2: "registered ?b1 ?h1" "sane ?b1 ?h1" by simp_all
    from leave_source_keeps [OF l j2]
    have j3: "registered b3 h3" "sane b3 h3" and n: "next_oid h \<le> next_oid h3" by simp_all
    from it n have "it < next_oid h3" by simp
    from place_item_keeps [OF pl j3 this] show ?thesis .
  qed
qed

lemma move_keeps:
  assumes m: "move uuid b h it direction stp = Inr (b', h')"
    and reg: "registered b h" and sane: "sane b h"
    and ok: "call_ok (Move uuid it direction stp) b h"
  shows "registered b' h' \<and> sane b' h'"
proof -
  from ok have it: "it < next_oid h" by simp
  from m have mv: "is_Movable (cls (objs h it)) \<and> can_move (objs h it)"
    by (simp add: move_def move_simple_def split: if_splits)
  show ?thesis
  proof (cases "offset direction stp")
    case None
    with m mv reg sane show ?thesis by (simp add: move_def move_simple_def)
  next
    case (Some v)
    obtain dr dc where v: "v = (dr, dc)" by (cases v)
    from m mv Some v obtain r c where p: "pos (objs h it) = Some (r, c)"
      by (cases "pos (objs h it)") (auto simp: move_def move_simple_def)
    let ?nr = "r + dr" and ?nc = "c + dc"
    show ?thesis
    proof (cases "0 \<le> ?nr \<and> 0 \<le> ?nc \<and> ?nr < height b \<and> ?nc < width b")
      case False
      with m mv Some v p reg sane show ?thesis
        by (auto simp: move_def move_simple_def Let_def)
    next
      case True
      with m mv Some v p obtain d where d: "get2 (matrix b) ?nr ?nc = Some d"
        by (cases "get2 (matrix b) ?nr ?nc") (auto simp: move_def move_simple_def Let_def)
      let ?h1 = "if may_activate (objs h it) (objs h d) then activate d h else h"
      from m mv Some v p True d obtain b2 h2
        where pk: "pickup uuid b ?h1 it ?nr ?nc = Inr (b2, h2)"
        by (cases "pickup uuid b ?h1 it ?nr ?nc") (auto simp: move_def move_simple_def Let_def)
      with m mv Some v p True d have st: "settle b2 h2 it ?nr ?nc = Inr (b', h')"
        by (auto simp: move_def move_simple_def Let_def)
      have c1: "cls (objs ?h1 i) = cls (objs h i)" for i by simp
      have s1: "single ?h1 i = single h i" for i
        by (simp add: single_def activate_def upd_objs)
      have n1: "next_oid ?h1 = next_oid h" by simp
      from keeps_heap_same [OF reg sane n1 c1 s1]
      have j1: "registered b ?h1" "sane b ?h1" by simp_all
      have ok1: "clear_ok b ?h1 ?nr ?nc"
        if "get2 (matrix b) ?nr ?nc = Some x" "\<not> overlappable (objs ?h1 x)"
          "pickable (objs ?h1 x)" "inventory (objs ?h1 it) \<noteq> None" for x
      proof -
        from that d have "x = d" "\<not> overlappable (objs h d)" "pickable (objs h d)"
          "inventory (objs h it) \<noteq> None" by (simp_all split: if_splits)
        with ok Some v p d have "clear_ok b h ?nr ?nc" by simp
        then show ?thesis using clear_ok_cong [of ?h1 h b ?nr ?nc] c1 by simp
      qed
      from pickup_keeps [OF pk j1 ok1]
      have j2: "registered b2 h2" "sane b2 h2" and n2: "next_oid ?h1 \<le> next_oid h2"
        by simp_all
      from it n1 n2 have "it < next_oid h2" by simp
      from settle_keeps [OF st j2 this] show ?thesis .
    qed
  qed
qed


lemma two_walls_facts:
  "cls (objs two_walls i) = (if i = 25 \<or> i = 26 then Wall else BoardItemVoid)"
  "single two_walls i" "next_oid two_walls = 27"
  "keeps two_walls i = False" "parent (objs two_walls 25) = None"
  "parent (objs two_walls 26) = None"
  by (simp_all add: two_walls_def heap_with_def new_item_def new_void_def single_def keeps_def)

lemma board5_stored:
  "i \<in> stored (board5 mv im) \<Longrightarrow> i < 25" "parked (board5 mv im) = {}"
  by (auto simp: stored_def parked_def board5_facts grid5_def no_overlap5_def)

lemma board5_registered: "registered (board5 {} {}) two_walls \<and> sane (board5 {} {}) two_walls"
proof -
  have "in_its_set (board5 {} {}) two_walls i" if "i \<in> stored (board5 {} {})" for i
    using board5_stored(1) [OF that] by (simp add: in_its_set_def two_walls_facts)
  moreover have "i < next_oid two_walls" if "i \<in> stored (board5 {} {})" for i
    using board5_stored(1) [OF that] by (simp add: two_walls_facts)
  ultimately show ?thesis
    by (simp add: registered_def sane_def board5_stored(2) two_walls_facts)
qed


lemma sets_exact_stored: "sets_exact b h \<Longrightarrow> i \<in> immovables b \<Longrightarrow> i \<in> stored b"
  by (auto simp: sets_exact_def)


section \<open>Neighbours\<close>

lemma offsets_1:
  "offsets 1 = [(- 1, - 1), (- 1, 0), (- 1, 1), (0, - 1), (0, 0), (0, 1), (1, - 1), (1, 0), (1, 1)]"
proof -
  have "[- 1..1] = [- 1, 0, (1::int)]" by (simp add: upto.simps)
  then show ?thesis by (simp add: offsets_def)
qed

text \<open>
  Claim C8 at an object on the edge of the board. \<^verbatim>\<open>neighbors\<close> tests the upper bounds
  only, where \<^verbatim>\<open>_move_simple\<close> and \<^verbatim>\<open>add_projectile\<close> test \<open>0 \<le>\<close> as well, so a cell
  above or left of the board is looked up with a negative index, which counts from the
  end. On the 5 by 5 board, with the Player at (0,0) and a Wall at (4,4), every cell
  within distance 1 of the Player is a Void, yet \<^verbatim>\<open>neighbors(1, player)\<close> returns the
  Wall.
\<close>

theorem neighbors_wraps:
  "pos (objs (store corner_game) 0) = Some (0, 0)
   \<and> pos (objs (store corner_game) 24) = Some (4, 4)
   \<and> cls (objs (store corner_game) 24) = Wall
   \<and> current_board corner_game = Inr (board5 {0} {24})
   \<and> item (board5 {0} {24}) 4 4 = Inr 24
   \<and> cls (objs (store corner_game) 1) = BoardItemVoid
   \<and> cls (objs (store corner_game) 5) = BoardItemVoid
   \<and> cls (objs (store corner_game) 6) = BoardItemVoid
   \<and> neighbors corner_game 1 0 = Inr [24]"
  by (simp add: neighbors_def offsets_1 corner_game_def corner_heap_def heap_with_def
      player_at_def wall_at_def new_item_def new_void_def current_board_def item_def
      get2_def py_index_def board5_facts grid5_def)

section \<open>A projectile placed on an occupied cell\<close>

lemma get2_grid:
  assumes "0 \<le> r" "r < int h" "0 \<le> c" "c < int w"
  shows "get2 (grid w h) r c = Some (nat r * w + nat c)"
proof -
  from assms have "nat r < h" "nat c < w" by linarith+
  with assms show ?thesis by (simp add: get2_def py_index_def grid_def)
qed

lemma item_board10:
  assumes "0 \<le> r" "r < 10" "0 \<le> c" "c < 10"
  shows "item board10 r c = Inr (nat r * 10 + nat c)"
  using assms get2_grid [of r 10 c 10]
  by (simp add: item_def board10_def board_of_def height_def width_def)

lemma aoe_heap_cls:
  "cls (objs aoe_heap i)
     = (if i = 33 \<or> i = 34 \<or> i = 43 then Wall
        else if i = 100 then Projectile else BoardItemVoid)"
  by (simp add: aoe_heap_def heap_with_def wall_at_def new_item_def new_void_def)

text \<open>
  Claim C6 in the spec's scenario 4. The three Walls are at (3,3), (3,4) and (4,3); the
  projectile is sent to (3,3). \<^verbatim>\<open>add_projectile\<close> returns, the projectile is neither
  placed nor added to the roster, and the callback is called once, with the list of the
  Walls at (3,4) and (4,3): \<^verbatim>\<open>neighbors\<close> is centred on the Wall at (3,3) and skips its
  centre, so the item that was hit is not in the list.
\<close>

theorem aoe_on_placement:
  "item board10 3 3 = Inr 33 \<and> item board10 3 4 = Inr 34 \<and> item board10 4 3 = Inr 43
   \<and> cls (objs aoe_heap 33) = Wall \<and> cls (objs aoe_heap 34) = Wall
   \<and> cls (objs aoe_heap 43) = Wall
   \<and> neighbors aoe_game 1 33 = Inr [34, 43]
   \<and> add_projectile aoe_game 1 100 3 3 = Inr (aoe_game\<lparr>hit_log := [(100, [34, 43])]\<rparr>)"
proof -
  have p: "pos (objs aoe_heap 33) = Some (3, 3)" "is_aoe (objs aoe_heap 100)"
    "aoe_radius (objs aoe_heap 100) = 1"
    by (simp_all add: aoe_heap_def heap_with_def wall_at_def new_item_def)
  have g: "store aoe_game = aoe_heap" "current_board aoe_game = Inr board10"
    "boards aoe_game 1 = Some \<lparr>lboard = board10, npcs = [], projectiles = []\<rparr>"
    "hit_log aoe_game = []"
    by (simp_all add: aoe_game_def current_board_def)
  have sz: "height board10 = 10" "width board10 = 10"
    by (simp_all add: board10_def board_of_def height_def width_def)
  have n: "neighbors aoe_game 1 33 = Inr [34, 43]"
    by (simp add: neighbors_def offsets_1 g p sz item_board10 aoe_heap_cls)
  have "add_projectile aoe_game 1 100 3 3 = Inr (aoe_game\<lparr>hit_log := [(100, [34, 43])]\<rparr>)"
    by (simp add: add_projectile_def g p sz item_board10 aoe_heap_cls n hit_def Let_def)
  with n show ?thesis by (simp add: item_board10 aoe_heap_cls)
qed

section \<open>The hits of a projectile\<close>

lemma shot_heap_facts:
  "actuator (objs shot_heap 0) = Some \<lparr>astate = RUNNING, moves = [], repeated = RIGHT\<rparr>"
  "proj_range (objs shot_heap 0) = 5" "step (objs shot_heap 0) = Some 1"
  "pos (objs shot_heap 0) = Some (0, 0)" "is_aoe (objs shot_heap 0) = False"
  "is_Movable (cls (objs shot_heap 0))" "can_move (objs shot_heap 0)"
  "\<not> overlappable (objs shot_heap 1)" "\<not> pickable (objs shot_heap 1)"
  "cls (objs shot_heap 1) = Wall" "next_oid shot_heap = 25"
  by (simp_all add: shot_heap_def heap_with_def wall_at_def new_item_def)

text \<open>
  Claim C5 at a directional collision. The projectile at (0,0) flies right into the Wall
  at (0,1). One call of \<^verbatim>\<open>actuate_projectiles\<close> returns with the projectile where it
  was, and has called the callback twice: first with a new placeholder Void, then with
  the Wall.
\<close>

theorem directional_hit_fires_twice:
  "\<exists>g'. actuate_projectiles ''u'' shot_game 1 = Inr g'
      \<and> hit_log g' = [(0, [25]), (0, [1])]
      \<and> cls (objs (store g') 25) = BoardItemVoid \<and> cls (objs (store g') 1) = Wall
      \<and> pos (objs (store g') 0) = Some (0, 0) \<and> proj_range (objs (store g') 0) = 4
      \<and> boards g' 1 = Some \<lparr>lboard = board5 {0} {1}, npcs = [], projectiles = [0]\<rparr>"
proof -
  let ?b = "board5 {0} {1}"
  let ?l = "\<lparr>lboard = ?b, npcs = [], projectiles = [0]\<rparr>"
  let ?h1 = "upd 0 (\<lambda>x. x\<lparr>actuator := Some \<lparr>astate = RUNNING, moves = [], repeated = RIGHT\<rparr>\<rparr>)
               shot_heap"
  have g: "boards shot_game 1 = Some ?l" "store shot_game = shot_heap"
    "state shot_game = RUNNING" "hit_log shot_game = []"
    by (simp_all add: shot_game_def)
  have h1: "is_Movable (cls (objs ?h1 0))" "can_move (objs ?h1 0)"
    "pos (objs ?h1 0) = Some (0, 0)" "step (objs ?h1 0) = Some 1"
    "\<not> overlappable (objs ?h1 1)" "\<not> (pickable (objs ?h1 1) \<and> inventory (objs ?h1 0) \<noteq> None)"
    "\<not> may_activate (objs ?h1 0) (objs ?h1 1)"
    by (simp_all del: One_nat_def add: upd_objs shot_heap_facts may_activate_def)
  have off: "offset RIGHT 1 = Some (0, 1)" by simp
  have ins: "inside ?b (0 + 0) (0 + 1)" by (simp add: inside_def board5_facts)
  have gt: "get2 (matrix ?b) (0 + 0) (0 + 1) = Some 1"
    by (simp add: board5_facts grid5_def get2_def py_index_def)
  from move_blocked [OF h1(1-3) off ins gt h1(5,6), of "''u''"] h1(7)
  have mv: "move ''u'' ?b ?h1 0 RIGHT 1 = Inr (?b, ?h1)" by simp
  have it: "item ?b 0 1 = Inr 1"
    by (simp add: item_def board5_facts grid5_def get2_def py_index_def)
  have one: "actuate_projectile ''u'' 1 0 shot_game
      = Inr (hit 0 [1] (void_hit 0
               (with_board 1 ?b (upd 0 (\<lambda>x. x\<lparr>proj_range := proj_range x - 1\<rparr>) ?h1)
                  shot_game)))"
    by (simp del: One_nat_def add: actuate_projectile_def g shot_heap_facts next_move_def h1 mv
        Let_def upd_objs board5_facts it)
  have "actuate_projectiles ''u'' shot_game 1
      = Inr (hit 0 [1] (void_hit 0
               (with_board 1 ?b (upd 0 (\<lambda>x. x\<lparr>proj_range := proj_range x - 1\<rparr>) ?h1)
                  shot_game)))"
    by (simp add: actuate_projectiles_def g one)
  then show ?thesis
    by (simp del: One_nat_def add: hit_def void_hit_def with_board_def alloc_def g upd_objs upd_def
        shot_heap_facts placeholder_void_def new_item_def)
qed

end
